theory Spec2Isabelle
  imports Main "HOL-Library.Char_ord" "HOL-Library.List_Lexorder"
begin

text \<open>
  A model of the wake-up task page of cockpit-tools
  (\<^verbatim>\<open>src/pages/CodexWakeupTasksPage.tsx\<close>): the normalisation of schedules, the
  calculation of the next runs of a schedule and of a cron expression, the history log,
  the fan-out of the immediate test, the repair of selections, the trigger modes and the
  storage keys; and of the instance cache of \<^verbatim>\<open>src/stores/createInstanceStore.ts\<close>.
  Clock readings, the remote service and the browser storage are parameters of the
  functions that use them.
\<close>

section \<open>Strings and numbers of the host language\<close>

text \<open>
  A string is a list of code units, here the Latin-1 range (\<^typ>\<open>char\<close>); the default
  order of \<open>Array.prototype.sort\<close> on strings is the lexicographic order of code units,
  which is the order of \<^typ>\<open>string\<close> with \<open>Char_ord\<close> and \<open>List_Lexorder\<close>.

  A number is an integer or \<open>NaN\<close>: \<^typ>\<open>int option\<close> with \<open>None\<close> for \<open>NaN\<close>.
  Fractions, infinities and the rounding of doubles beyond \<open>2^53\<close> are not modelled.
\<close>

type_synonym jsnum = "int option"

definition is_space :: "char \<Rightarrow> bool" where
  "is_space c \<longleftrightarrow> (of_char c :: nat) \<in> {9, 10, 11, 12, 13, 32, 160}"

definition is_digit :: "char \<Rightarrow> bool" where
  "is_digit c \<longleftrightarrow> 48 \<le> (of_char c :: nat) \<and> (of_char c :: nat) \<le> 57"

definition digit_val :: "char \<Rightarrow> int" where
  "digit_val c = int (of_char c) - 48"

definition digits_val :: "string \<Rightarrow> int" where
  "digits_val ds = foldl (\<lambda>acc c. acc * 10 + digit_val c) 0 ds"

text \<open>\<open>String.prototype.trim\<close>: white space is removed at both ends.\<close>

definition trim :: "string \<Rightarrow> string" where
  "trim s = rev (dropWhile is_space (rev (dropWhile is_space s)))"

text \<open>
  \<open>s.split(c)\<close> for a one-character separator: the pieces between the separators, in
  order; a string without the separator is its own single piece.
\<close>

fun split_char :: "char \<Rightarrow> string \<Rightarrow> string list" where
  "split_char sep [] = [[]]"
| "split_char sep (c # cs) =
     (if c = sep then [] # split_char sep cs
      else (case split_char sep cs of
              p # ps \<Rightarrow> (c # p) # ps
            | [] \<Rightarrow> [[c]]))"

text \<open>
  \<open>s.split(/\s+/)\<close>: as \<open>split\<close>, with every maximal run of white space as one
  separator.
\<close>

fun split_ws :: "string \<Rightarrow> string list" where
  "split_ws [] = [[]]"
| "split_ws (c # cs) =
     (if is_space c then
        (case cs of
           c' # _ \<Rightarrow> if is_space c' then split_ws cs else [] # split_ws cs
         | [] \<Rightarrow> [] # split_ws cs)
      else (case split_ws cs of
              p # ps \<Rightarrow> (c # p) # ps
            | [] \<Rightarrow> [[c]]))"

text \<open>
  \<open>Number(s)\<close> on the signed decimal integers: white space is trimmed, the empty string
  is \<open>0\<close>, an optional sign and one or more digits give the integer, and everything else
  in this model is \<open>NaN\<close>. (The host language also reads fractions, exponents, radix
  prefixes and \<open>Infinity\<close>; no statement below applies \<open>Number_js\<close> to such a string.)
  The integer of the model is exact, where the host language rounds a number beyond
  \<open>2^53\<close> to a double and reads \<open>Infinity\<close> from 309 digits on: the model is the
  host language on digit strings of at most 15 digits, and the statements below that
  depend on the value of a digit string are about such strings.
\<close>

definition unsigned_digits :: "string \<Rightarrow> jsnum" where
  "unsigned_digits ds = (if ds \<noteq> [] \<and> list_all is_digit ds then Some (digits_val ds) else None)"

definition Number_js :: "string \<Rightarrow> jsnum" where
  "Number_js s =
     (case trim s of
        [] \<Rightarrow> Some 0
      | c # cs \<Rightarrow>
          if c = CHR ''-'' then map_option uminus (unsigned_digits cs)
          else if c = CHR ''+'' then unsigned_digits cs
          else unsigned_digits (c # cs))"

text \<open>
  \<open>Number.parseInt(s, 10)\<close>: leading white space is skipped, then an optional sign and
  the longest run of digits are read; no digit at all gives \<open>NaN\<close>.
\<close>

definition parseInt10 :: "string \<Rightarrow> jsnum" where
  "parseInt10 s =
     (case dropWhile is_space s of
        [] \<Rightarrow> None
      | c # cs \<Rightarrow>
          if c = CHR ''-'' then map_option uminus (unsigned_digits (takeWhile is_digit cs))
          else if c = CHR ''+'' then unsigned_digits (takeWhile is_digit cs)
          else unsigned_digits (takeWhile is_digit (c # cs)))"

text \<open>Reading element \<open>i\<close> of an array of numbers; out of range it is \<open>undefined\<close>,
  which every use below converts to \<open>NaN\<close>.\<close>

definition num_at :: "jsnum list \<Rightarrow> nat \<Rightarrow> jsnum" where
  "num_at xs i = (if i < length xs then xs ! i else None)"

section \<open>Schedules and tasks\<close>

datatype RepeatMode = Daily | Weekly | Interval

datatype TriggerMode = Scheduled | Crontab | QuotaReset

text \<open>
  \<open>ScheduleConfig\<close>. A field that the code reads through \<open>?.\<close>, \<open>||\<close> or a
  \<open>typeof\<close> test, or that the interface declares optional, is an option: \<open>None\<close> is
  the absent (\<open>undefined\<close>) property.
\<close>

record ScheduleConfig =
  repeatMode :: RepeatMode
  dailyTimes :: "string list option"
  weeklyDays :: "int list option"
  weeklyTimes :: "string list option"
  intervalHours :: "int option"
  intervalStartTime :: "string option"
  intervalEndTime :: "string option"
  selectedModels :: "string list"
  selectedAccounts :: "string list"
  crontab :: "string option"
  wakeOnReset :: "bool option"
  customPrompt :: "string option"
  maxOutputTokens :: "int option"
  timeWindowEnabled :: "bool option"
  timeWindowStart :: "string option"
  timeWindowEnd :: "string option"
  fallbackTimes :: "string list option"

text \<open>\<open>xs?.length ? xs : d\<close>\<close>

definition nonempty_or :: "'a list option \<Rightarrow> 'a list \<Rightarrow> 'a list" where
  "nonempty_or xs d = (case xs of Some (y # ys) \<Rightarrow> y # ys | _ \<Rightarrow> d)"

text \<open>\<open>s || d\<close> on an optional string: the empty string is falsy.\<close>

definition string_or :: "string option \<Rightarrow> string \<Rightarrow> string" where
  "string_or s d = (case s of Some (c # cs) \<Rightarrow> c # cs | _ \<Rightarrow> d)"

definition normalizeSchedule :: "ScheduleConfig \<Rightarrow> ScheduleConfig" where
  "normalizeSchedule schedule =
     schedule\<lparr>
       dailyTimes := Some (nonempty_or (dailyTimes schedule) [''08:00'']),
       weeklyDays := Some (nonempty_or (weeklyDays schedule) [1, 2, 3, 4, 5]),
       weeklyTimes := Some (nonempty_or (weeklyTimes schedule) [''08:00'']),
       intervalHours :=
         Some (case intervalHours schedule of
                 Some h \<Rightarrow> if h \<noteq> 0 \<and> h > 0 then h else 4
               | None \<Rightarrow> 4),
       intervalStartTime := Some (string_or (intervalStartTime schedule) ''07:00''),
       intervalEndTime := Some (string_or (intervalEndTime schedule) ''22:00''),
       maxOutputTokens :=
         Some (case maxOutputTokens schedule of Some n \<Rightarrow> n | None \<Rightarrow> 0),
       fallbackTimes := Some (nonempty_or (fallbackTimes schedule) [''07:00''])
     \<rparr>"

text \<open>
  \<open>{ ...DEFAULT_SCHEDULE, ...schedule }\<close>: a property absent from \<open>schedule\<close> takes
  the value of \<open>DEFAULT_SCHEDULE\<close>, which has no \<open>crontab\<close>, \<open>wakeOnReset\<close>,
  \<open>customPrompt\<close>, time window or \<open>fallbackTimes\<close>. The properties \<open>repeatMode\<close>,
  \<open>selectedModels\<close> and \<open>selectedAccounts\<close>, which the interface requires and the
  code reads without a guard, are present in every \<open>schedule\<close> of the model.
\<close>

definition opt_or :: "'a option \<Rightarrow> 'a \<Rightarrow> 'a option" where
  "opt_or x d = (case x of None \<Rightarrow> Some d | Some v \<Rightarrow> Some v)"

definition with_DEFAULT_SCHEDULE :: "ScheduleConfig \<Rightarrow> ScheduleConfig" where
  "with_DEFAULT_SCHEDULE schedule =
     schedule\<lparr>
       dailyTimes := opt_or (dailyTimes schedule) [''08:00''],
       weeklyDays := opt_or (weeklyDays schedule) [1, 2, 3, 4, 5],
       weeklyTimes := opt_or (weeklyTimes schedule) [''08:00''],
       intervalHours := opt_or (intervalHours schedule) 4,
       intervalStartTime := opt_or (intervalStartTime schedule) ''07:00'',
       intervalEndTime := opt_or (intervalEndTime schedule) ''22:00'',
       maxOutputTokens := opt_or (maxOutputTokens schedule) 0
     \<rparr>"

record WakeupTask =
  task_id :: string
  name :: string
  enabled :: bool
  createdAt :: int
  lastRunAt :: "int option"
  schedule :: ScheduleConfig

definition normalizeTask :: "WakeupTask \<Rightarrow> WakeupTask" where
  "normalizeTask task = task\<lparr>schedule := normalizeSchedule (with_DEFAULT_SCHEDULE (schedule task))\<rparr>"

section \<open>Instants\<close>

text \<open>
  A \<open>Date\<close> is its time value: milliseconds of local wall-clock time since the local
  midnight of 1 January 1970 (a Thursday), in a time zone with a fixed offset (no
  daylight-saving transitions). An invalid date, the result of setting a field to
  \<open>NaN\<close>, is \<open>None\<close>; it compares false with every date.
\<close>

abbreviation MS_PER_MINUTE :: int where "MS_PER_MINUTE \<equiv> 60000"
abbreviation MS_PER_HOUR :: int where "MS_PER_HOUR \<equiv> 3600000"
abbreviation MS_PER_DAY :: int where "MS_PER_DAY \<equiv> 86400000"

definition start_of_day :: "int \<Rightarrow> int" where
  "start_of_day t = t - t mod MS_PER_DAY"

definition getDay :: "int \<Rightarrow> int" where
  "getDay t = (t div MS_PER_DAY + 4) mod 7"

definition getHours :: "int \<Rightarrow> int" where
  "getHours t = (t mod MS_PER_DAY) div MS_PER_HOUR"

definition getMinutes :: "int \<Rightarrow> int" where
  "getMinutes t = (t mod MS_PER_HOUR) div MS_PER_MINUTE"

text \<open>
  \<open>const date = new Date(now); date.setDate(date.getDate() + dayOffset);
  date.setHours(h, m, 0, 0)\<close>: the day of \<open>now\<close> moved by \<open>dayOffset\<close> days, at
  \<open>h\<close> hours and \<open>m\<close> minutes after its midnight (hours and minutes out of range
  carry over).
\<close>

definition at_day_time :: "int \<Rightarrow> nat \<Rightarrow> jsnum \<Rightarrow> jsnum \<Rightarrow> int option" where
  "at_day_time now dayOffset h m =
     (case (h, m) of
        (Some h', Some m') \<Rightarrow>
          Some (start_of_day (now + int dayOffset * MS_PER_DAY) + h' * MS_PER_HOUR + m' * MS_PER_MINUTE)
      | _ \<Rightarrow> None)"

text \<open>\<open>const [h, m] = time.split(':').map(Number)\<close>, then the date as above.\<close>

definition time_candidate :: "int \<Rightarrow> nat \<Rightarrow> string \<Rightarrow> int option" where
  "time_candidate now dayOffset time =
     (let hm = map Number_js (split_char CHR '':'' time)
      in at_day_time now dayOffset (num_at hm 0) (num_at hm 1))"

section \<open>The recurrence calculator\<close>

text \<open>
  The body shared by the \<open>for ... of\<close> loops:
  \<^verbatim>\<open>for (const x of xs) { const date = mk(x);
  if (date > now) { results.push(date); if (results.length >= count) break; } }\<close>
\<close>

fun push_candidates :: "('a \<Rightarrow> int option) \<Rightarrow> int \<Rightarrow> nat \<Rightarrow> 'a list \<Rightarrow> int list \<Rightarrow> int list" where
  "push_candidates mk now count [] results = results"
| "push_candidates mk now count (x # xs) results =
     (case mk x of
        Some date \<Rightarrow>
          if now < date then
            (if count \<le> length (results @ [date]) then results @ [date]
             else push_candidates mk now count xs (results @ [date]))
          else push_candidates mk now count xs results
      | None \<Rightarrow> push_candidates mk now count xs results)"

text \<open>
  \<^verbatim>\<open>for (let dayOffset = 0; dayOffset < horizon && results.length < count; dayOffset += 1)\<close>
  around a body that may not return (\<open>None\<close>).
\<close>

function for_dayOffset ::
  "nat \<Rightarrow> nat \<Rightarrow> (nat \<Rightarrow> int list \<Rightarrow> int list option) \<Rightarrow> nat \<Rightarrow> int list \<Rightarrow> int list option" where
  "for_dayOffset horizon count body dayOffset results =
     (if dayOffset < horizon \<and> length results < count then
        (case body dayOffset results of
           None \<Rightarrow> None
         | Some results' \<Rightarrow> for_dayOffset horizon count body (dayOffset + 1) results')
      else Some results)"
  by pat_completeness auto
termination
  by (relation "measure (\<lambda>(horizon, count, body, dayOffset, results). horizon - dayOffset)") auto

text \<open>
  \<^verbatim>\<open>for (let h = startH; h <= endH; h += interval)\<close> of the interval mode. With a negative
  \<open>interval\<close> the loop leaves only through \<open>break\<close>, so it is a partial function.
\<close>

partial_function (option) interval_hours_loop ::
  "int \<Rightarrow> nat \<Rightarrow> nat \<Rightarrow> int \<Rightarrow> int \<Rightarrow> jsnum \<Rightarrow> int \<Rightarrow> int list \<Rightarrow> int list option" where
  "interval_hours_loop now dayOffset count endH interval startM h results =
     (if h \<le> endH then
        (case at_day_time now dayOffset (Some h) startM of
           Some date \<Rightarrow>
             if now < date then
               (if count \<le> length (results @ [date]) then Some (results @ [date])
                else interval_hours_loop now dayOffset count endH interval startM (h + interval)
                       (results @ [date]))
             else interval_hours_loop now dayOffset count endH interval startM (h + interval) results
         | None \<Rightarrow> interval_hours_loop now dayOffset count endH interval startM (h + interval) results)
      else Some results)"

declare interval_hours_loop.simps [code]

definition first_piece :: "char \<Rightarrow> string \<Rightarrow> string" where
  "first_piece sep s = (case split_char sep s of p # _ \<Rightarrow> p | [] \<Rightarrow> [])"

text \<open>
  \<open>calculateNextRuns(config, count)\<close>, with the clock reading \<open>new Date()\<close> as the
  parameter \<open>now\<close>. \<open>count\<close> is a number of results (the callers pass 1 and 5).
  \<open>None\<close>: the call does not return.
\<close>

definition calculateNextRuns :: "ScheduleConfig \<Rightarrow> int \<Rightarrow> nat \<Rightarrow> int list option" where
  "calculateNextRuns config now count =
     map_option (take count)
       (if repeatMode config = Daily \<and> nonempty_or (dailyTimes config) [] \<noteq> [] then
          for_dayOffset 7 count
            (\<lambda>dayOffset results.
               Some (push_candidates (time_candidate now dayOffset) now count
                       (sort (nonempty_or (dailyTimes config) [])) results))
            0 []
        else if repeatMode config = Weekly \<and> nonempty_or (weeklyDays config) [] \<noteq> []
                \<and> nonempty_or (weeklyTimes config) [] \<noteq> [] then
          for_dayOffset 14 count
            (\<lambda>dayOffset results.
               Some (if getDay (now + int dayOffset * MS_PER_DAY) \<in> set (nonempty_or (weeklyDays config) [])
                     then push_candidates (time_candidate now dayOffset) now count
                            (sort (nonempty_or (weeklyTimes config) [])) results
                     else results))
            0 []
        else if repeatMode config = Interval then
          (let hm = map Number_js (split_char CHR '':'' (string_or (intervalStartTime config) ''07:00''));
               startH = num_at hm 0;
               startM = num_at hm 1;
               endH = (case intervalEndTime config of
                         Some (c # cs) \<Rightarrow> parseInt10 (first_piece CHR '':'' (c # cs))
                       | _ \<Rightarrow> Some 22);
               interval = (case intervalHours config of
                             Some n \<Rightarrow> if n = 0 then 4 else n
                           | None \<Rightarrow> 4)
           in for_dayOffset 7 count
                (\<lambda>dayOffset results.
                   case (startH, endH) of
                     (Some s, Some e) \<Rightarrow>
                       interval_hours_loop now dayOffset count e interval startM s results
                   | _ \<Rightarrow> Some results)
                0 [])
        else Some [])"

section \<open>The cron-expression evaluator\<close>

definition js_add :: "jsnum \<Rightarrow> jsnum \<Rightarrow> jsnum" where
  "js_add a b = (case (a, b) of (Some x, Some y) \<Rightarrow> Some (x + y) | _ \<Rightarrow> None)"

definition js_sub :: "jsnum \<Rightarrow> jsnum \<Rightarrow> jsnum" where
  "js_sub a b = (case (a, b) of (Some x, Some y) \<Rightarrow> Some (x - y) | _ \<Rightarrow> None)"

text \<open>
  \<open>Array.from({ length: n }, (_, i) => f(i))\<close>: the length is converted with
  \<open>ToLength\<close> (\<open>NaN\<close> and negative numbers are \<open>0\<close>), and a length above
  \<open>2^32 - 1\<close> throws a \<open>RangeError\<close> (\<open>None\<close>).
\<close>

definition array_from_length :: "jsnum \<Rightarrow> (nat \<Rightarrow> 'a) \<Rightarrow> 'a list option" where
  "array_from_length n f =
     (let len = (case n of None \<Rightarrow> 0 | Some k \<Rightarrow> if k < 0 then 0 else k)
      in if len > 4294967295 then None else Some (map f [0..<nat len]))"

text \<open>\<open>Math.ceil(a / b)\<close> on integers, \<open>b\<close> not zero. (For \<open>0 \<le> a < 2^32\<close> and
  \<open>0 < b < 2^53\<close> the rounded quotient of the host language is an integer only when the
  exact one is, so its ceiling is the exact ceiling.)\<close>

definition ceil_div :: "int \<Rightarrow> int \<Rightarrow> int" where
  "ceil_div a b = - ((- a) div b)"

definition parseField :: "string \<Rightarrow> int \<Rightarrow> jsnum list option" where
  "parseField field max_value =
     (if field = ''*'' then array_from_length (Some (max_value + 1)) (\<lambda>i. Some (int i))
      else if CHR '','' \<in> set field then Some (map Number_js (split_char CHR '','' field))
      else if CHR ''-'' \<in> set field then
        (let bounds = map Number_js (split_char CHR ''-'' field);
             start_value = num_at bounds 0;
             end_value = num_at bounds 1
         in array_from_length (js_add (js_sub end_value start_value) (Some 1))
              (\<lambda>i. js_add start_value (Some (int i))))
      else if CHR ''/'' \<in> set field then
        (let step = (case split_char CHR ''/'' field of
                       _ # st # _ \<Rightarrow> Number_js st
                     | _ \<Rightarrow> None);
             stepValue = (case step of Some v \<Rightarrow> if v = 0 then 1 else v | None \<Rightarrow> 1)
         in array_from_length (Some (ceil_div (max_value + 1) stepValue))
              (\<lambda>i. Some (int i * stepValue)))
      else Some [Number_js field])"

text \<open>
  The loop over the hours of one day:
  \<^verbatim>\<open>for (const h of hours) { for (const m of minutes) { ... }
  if (results.length >= count) break; }\<close>
\<close>

fun cron_hours_loop :: "int \<Rightarrow> nat \<Rightarrow> nat \<Rightarrow> jsnum list \<Rightarrow> jsnum list \<Rightarrow> int list \<Rightarrow> int list" where
  "cron_hours_loop now dayOffset count minutes [] results = results"
| "cron_hours_loop now dayOffset count minutes (h # hs) results =
     (let results' = push_candidates (at_day_time now dayOffset h) now count minutes results
      in if count \<le> length results' then results'
         else cron_hours_loop now dayOffset count minutes hs results')"

text \<open>
  \<open>calculateCrontabNextRuns(crontab, count)\<close>; a \<open>RangeError\<close> of \<open>parseField\<close> is
  caught and gives the empty array.
\<close>

definition calculateCrontabNextRuns :: "string \<Rightarrow> int \<Rightarrow> nat \<Rightarrow> int list" where
  "calculateCrontabNextRuns expr now count =
     (let parts = split_ws (trim expr)
      in if length parts < 5 then []
         else (case parseField (parts ! 0) 59 of
                 None \<Rightarrow> []
               | Some minutes \<Rightarrow>
                   (case parseField (parts ! 1) 23 of
                      None \<Rightarrow> []
                    | Some hours \<Rightarrow>
                        (case for_dayOffset 7 count
                                (\<lambda>dayOffset results.
                                   Some (cron_hours_loop now dayOffset count minutes hours results))
                                0 [] of
                           Some results \<Rightarrow> results
                         | None \<Rightarrow> []))))"

section \<open>The history log\<close>

datatype HistoryTriggerType = Manual | Auto

datatype HistoryTriggerSource = SourceScheduled | SourceCrontab | SourceQuotaReset | SourceManual

record WakeupHistoryRecord =
  record_id :: string
  timestamp :: int
  triggerType :: HistoryTriggerType
  triggerSource :: HistoryTriggerSource
  taskName :: "string option"
  accountEmail :: string
  modelId :: string
  prompt :: "string option"
  success :: bool
  message :: "string option"
  duration :: "int option"

abbreviation MAX_HISTORY_ITEMS :: nat where "MAX_HISTORY_ITEMS \<equiv> 100"

text \<open>
  \<open>xs.sort((a, b) => b.timestamp - a.timestamp)\<close>: the stable sort by descending
  timestamp.
\<close>

definition sort_by_timestamp_desc :: "WakeupHistoryRecord list \<Rightarrow> WakeupHistoryRecord list" where
  "sort_by_timestamp_desc xs = sort_key (\<lambda>r. - timestamp r) xs"

text \<open>
  What the backend hands to \<open>loadHistory\<close>: the call is rejected, or its value is not an
  array, or it is an array of items. An item is falsy (\<open>null\<close>), or an object without a
  numeric \<open>timestamp\<close>, or a record.
\<close>

datatype LoadedItem = NullItem | NoNumericTimestamp | RecordItem WakeupHistoryRecord

datatype LoadOutcome = LoadRejected | NotAnArray | Loaded "LoadedItem list"

fun kept_records :: "LoadedItem list \<Rightarrow> WakeupHistoryRecord list" where
  "kept_records [] = []"
| "kept_records (RecordItem r # xs) = r # kept_records xs"
| "kept_records (_ # xs) = kept_records xs"

definition loadHistory :: "LoadOutcome \<Rightarrow> WakeupHistoryRecord list" where
  "loadHistory outcome =
     (case outcome of
        Loaded records \<Rightarrow> take MAX_HISTORY_ITEMS (sort_by_timestamp_desc (kept_records records))
      | _ \<Rightarrow> [])"

text \<open>\<open>appendHistoryRecords(records)\<close> as a function of the previous state \<open>prev\<close>.\<close>

definition appendHistoryRecords ::
  "WakeupHistoryRecord list \<Rightarrow> WakeupHistoryRecord list \<Rightarrow> WakeupHistoryRecord list" where
  "appendHistoryRecords records prev =
     (if records = [] then prev
      else take MAX_HISTORY_ITEMS (sort_by_timestamp_desc (records @ prev)))"

text \<open>\<open>clearHistoryRecords\<close>: the log is emptied when the dialog was confirmed and the
  backend call succeeded.\<close>

definition clearHistoryRecords :: "bool \<Rightarrow> bool \<Rightarrow> WakeupHistoryRecord list \<Rightarrow> WakeupHistoryRecord list" where
  "clearHistoryRecords confirmed cleared prev = (if confirmed \<and> cleared then [] else prev)"

datatype HistoryOp =
  LoadOp LoadOutcome
| AppendOp "WakeupHistoryRecord list"
| ClearOp bool bool

fun history_step :: "WakeupHistoryRecord list \<Rightarrow> HistoryOp \<Rightarrow> WakeupHistoryRecord list" where
  "history_step prev (LoadOp outcome) = loadHistory outcome"
| "history_step prev (AppendOp records) = appendHistoryRecords records prev"
| "history_step prev (ClearOp confirmed cleared) = clearHistoryRecords confirmed cleared prev"

text \<open>The state \<open>historyRecords\<close> starts empty (\<open>useState([])\<close>).\<close>

definition history_after :: "HistoryOp list \<Rightarrow> WakeupHistoryRecord list" where
  "history_after ops = foldl history_step [] ops"

section \<open>The immediate test: fan-out over accounts and models\<close>

record Account =
  account_id :: string
  email :: string

record InvokeResult =
  reply :: string
  durationMs :: "int option"

text \<open>How a dispatched call settles (\<open>Promise.allSettled\<close>): fulfilled with a result, or
  rejected with a reason, here already formatted by \<open>formatErrorMessage\<close>.\<close>

datatype Settled = Fulfilled InvokeResult | Rejected string

definition toLowerCase_char :: "char \<Rightarrow> char" where
  "toLowerCase_char c =
     (let n = (of_char c :: nat)
      in if (65 \<le> n \<and> n \<le> 90) \<or> (192 \<le> n \<and> n \<le> 222 \<and> n \<noteq> 215) then char_of (n + 32) else c)"

definition toLowerCase :: "string \<Rightarrow> string" where
  "toLowerCase s = map toLowerCase_char s"

text \<open>\<open>accountByEmail\<close>: a later account replaces an earlier one with the same key.\<close>

definition accountByEmail :: "Account list \<Rightarrow> string \<Rightarrow> Account option" where
  "accountByEmail accounts = map_of (rev (map (\<lambda>a. (toLowerCase (email a), a)) accounts))"

definition resolveAccounts :: "Account list \<Rightarrow> string list \<Rightarrow> Account list" where
  "resolveAccounts accounts emails =
     List.map_filter (\<lambda>e. accountByEmail accounts (toLowerCase e)) emails"

definition normalizeMaxOutputTokens :: "int \<Rightarrow> int \<Rightarrow> int" where
  "normalizeMaxOutputTokens v fallback = (if v > 0 then v else if fallback \<ge> 0 then fallback else 0)"

record FanOutAction =
  action_accountId :: string
  action_accountEmail :: string
  action_modelId :: string
  startedAt :: int
  settled :: Settled

datatype Notice = TestMissingModel | TestMissingAccount | TestFailed nat | TestCompleted

record TestRun =
  run_notice :: "Notice option"
  run_actions :: "FanOutAction list"
  run_items :: "WakeupHistoryRecord list"
  run_history :: "WakeupHistoryRecord list"

text \<open>
  The parameters of the environment: \<open>invoke\<close> is how the remote call for an account
  id, a model, a prompt and a token limit settles; \<open>clock k\<close> is the \<open>k\<close>-th reading of
  \<open>Date.now()\<close>; \<open>new_id i\<close> is the identifier given to record \<open>i\<close>; \<open>label\<close> is the
  translated task name and \<open>format_message\<close> the translated message of a success.
\<close>

record TestEnv =
  invoke :: "string \<Rightarrow> string \<Rightarrow> string option \<Rightarrow> int \<Rightarrow> Settled"
  clock :: "nat \<Rightarrow> int"
  new_id :: "nat \<Rightarrow> string"
  label :: string
  format_message :: "string \<Rightarrow> InvokeResult \<Rightarrow> int \<Rightarrow> string"

record TestForm =
  testing :: bool
  testSelectedModels :: "string list"
  testSelectedAccounts :: "string list"
  testCustomPrompt :: string
  testMaxOutputTokens :: int

text \<open>\<open>result.status === 'rejected'\<close>\<close>

definition is_rejected :: "Settled \<Rightarrow> bool" where
  "is_rejected s = (case s of Rejected _ \<Rightarrow> True | Fulfilled _ \<Rightarrow> False)"

text \<open>\<open>trimmedPrompt\<close>: the trimmed custom prompt, or \<open>undefined\<close> when it is blank.\<close>

definition test_prompt :: "TestForm \<Rightarrow> string option" where
  "test_prompt form =
     (if testCustomPrompt form \<noteq> [] \<and> trim (testCustomPrompt form) \<noteq> []
      then Some (trim (testCustomPrompt form)) else None)"

text \<open>\<open>resolvedMaxTokens\<close>: the form's limit, or that of the first enabled task.\<close>

definition test_max_tokens :: "TestForm \<Rightarrow> WakeupTask list \<Rightarrow> int" where
  "test_max_tokens form tasks =
     normalizeMaxOutputTokens (testMaxOutputTokens form)
       (case find enabled tasks of
          Some task \<Rightarrow> (case maxOutputTokens (schedule task) of Some k \<Rightarrow> k | None \<Rightarrow> 0)
        | None \<Rightarrow> 0)"

definition history_item ::
  "TestEnv \<Rightarrow> string \<Rightarrow> int \<Rightarrow> nat \<Rightarrow> nat \<Rightarrow> FanOutAction \<Rightarrow> WakeupHistoryRecord" where
  "history_item env promptText stamp n i action =
     (let elapsed = clock env (n + 1 + i) - startedAt action;
          d = (case settled action of
                 Fulfilled v \<Rightarrow> (case durationMs v of Some ms \<Rightarrow> ms | None \<Rightarrow> elapsed)
               | Rejected _ \<Rightarrow> elapsed)
      in \<lparr>record_id = new_id env i,
          timestamp = stamp,
          triggerType = Manual,
          triggerSource = SourceManual,
          taskName = Some (label env),
          accountEmail = action_accountEmail action,
          modelId = action_modelId action,
          prompt = Some promptText,
          success = (\<not> is_rejected (settled action)),
          message = Some (case settled action of
                            Fulfilled v \<Rightarrow> format_message env (action_modelId action) v d
                          | Rejected reason \<Rightarrow> reason),
          duration = Some d\<rparr>)"

text \<open>
  \<open>runImmediateTest\<close>: the state before is the form, the accounts, the tasks and the
  history \<open>prev\<close>; \<open>None\<close> is the immediate return while a test is running. The calls
  are dispatched in the order of the nested \<open>forEach\<close>, and \<open>Promise.allSettled\<close>
  waits for every one of them, whatever the others do.
\<close>

definition runImmediateTest ::
  "TestEnv \<Rightarrow> TestForm \<Rightarrow> Account list \<Rightarrow> WakeupTask list \<Rightarrow> WakeupHistoryRecord list \<Rightarrow> TestRun option" where
  "runImmediateTest env form accounts tasks prev =
     (if testing form then None
      else if testSelectedModels form = [] then
        Some \<lparr>run_notice = Some TestMissingModel, run_actions = [], run_items = [], run_history = prev\<rparr>
      else
        (let selected = resolveAccounts accounts (testSelectedAccounts form)
         in if selected = [] then
              Some \<lparr>run_notice = Some TestMissingAccount, run_actions = [], run_items = [],
                    run_history = prev\<rparr>
            else
              (let trimmedPrompt = test_prompt form;
                   promptText = (case trimmedPrompt of Some (c # cs) \<Rightarrow> c # cs | _ \<Rightarrow> ''hi'');
                   resolvedMaxTokens = test_max_tokens form tasks;
                   cells = concat (map (\<lambda>account. map (\<lambda>model. (account, model)) (testSelectedModels form))
                                    selected);
                   actions =
                     map (\<lambda>(i, (account, model)).
                            \<lparr>action_accountId = account_id account,
                             action_accountEmail = email account,
                             action_modelId = model,
                             startedAt = clock env i,
                             settled = invoke env (account_id account) model trimmedPrompt resolvedMaxTokens\<rparr>)
                         (enumerate 0 cells);
                   n = length actions;
                   failed = filter (\<lambda>a. is_rejected (settled a)) actions;
                   stamp = clock env n;
                   historyItems = map (\<lambda>(i, a). history_item env promptText stamp n i a) (enumerate 0 actions)
               in Some \<lparr>run_notice = Some (if length failed > 0 then TestFailed (length failed) else TestCompleted),
                        run_actions = actions,
                        run_items = historyItems,
                        run_history = appendHistoryRecords historyItems prev\<rparr>)))"

section \<open>Selection repair\<close>

text \<open>\<open>xs.join('|')\<close>\<close>

fun join_bar :: "string list \<Rightarrow> string" where
  "join_bar [] = []"
| "join_bar [x] = x"
| "join_bar (x # y # ys) = x @ CHR ''|'' # join_bar (y # ys)"

text \<open>
  One dimension of the repair: the selection filtered to the available items, the first
  available item when nothing is left, and the test on the joined texts that decides
  whether the selection is replaced. The result is the selection and the flag \<open>changed\<close>.
\<close>

definition repair_selection :: "string list \<Rightarrow> string list \<Rightarrow> string list \<times> bool" where
  "repair_selection available selected =
     (case available of
        [] \<Rightarrow> (selected, False)
      | first # _ \<Rightarrow>
          (let kept = filter (\<lambda>x. x \<in> set available) selected;
               next_selection = (if kept = [] then [first] else kept)
           in if join_bar next_selection \<noteq> join_bar selected then (next_selection, True)
              else (selected, False)))"

definition repair_task :: "string list \<Rightarrow> string list \<Rightarrow> WakeupTask \<Rightarrow> WakeupTask \<times> bool" where
  "repair_task accountEmails modelIds task =
     (let s0 = normalizeSchedule (with_DEFAULT_SCHEDULE (schedule task));
          (nextAccounts, c1) = repair_selection accountEmails (selectedAccounts s0);
          s1 = s0\<lparr>selectedAccounts := nextAccounts\<rparr>;
          (nextModels, c2) = repair_selection modelIds (selectedModels s1);
          s2 = s1\<lparr>selectedModels := nextModels\<rparr>
      in (task\<lparr>schedule := s2\<rparr>, c1 \<or> c2))"

text \<open>
  The effect on \<open>tasks\<close>, \<open>accountEmails\<close> and the ids of \<open>filteredModels\<close>: the new
  value of the state \<open>tasks\<close> (\<open>setTasks\<close> is called only when \<open>changed\<close>).
\<close>

definition repairSelections :: "WakeupTask list \<Rightarrow> string list \<Rightarrow> string list \<Rightarrow> WakeupTask list" where
  "repairSelections tasks accountEmails modelIds =
     (if tasks = [] then tasks
      else if accountEmails = [] \<and> modelIds = [] then tasks
      else (let repaired = map (repair_task accountEmails modelIds) tasks
            in if list_ex snd repaired then map fst repaired else tasks))"

section \<open>Trigger modes and saving a task\<close>

definition getTriggerMode :: "WakeupTask \<Rightarrow> TriggerMode" where
  "getTriggerMode task =
     (if wakeOnReset (schedule task) = Some True then QuotaReset
      else if string_or (crontab (schedule task)) [] \<noteq> [] then Crontab
      else Scheduled)"

record TaskForm =
  formName :: string
  formEnabled :: bool
  formTriggerMode :: TriggerMode
  formRepeatMode :: RepeatMode
  formDailyTimes :: "string list"
  formWeeklyDays :: "int list"
  formWeeklyTimes :: "string list"
  formIntervalHours :: "int option"
  formIntervalStart :: string
  formIntervalEnd :: string
  formSelectedModels :: "string list"
  formSelectedAccounts :: "string list"
  formCustomPrompt :: string
  formMaxOutputTokens :: int
  formCrontab :: string
  formTimeWindowEnabled :: bool
  formTimeWindowStart :: string
  formTimeWindowEnd :: string
  formFallbackTimes :: "string list"
  editingTaskId :: "string option"

datatype SaveError = NameRequired | AccountRequired | ModelRequired | CrontabRequired

text \<open>The schedule that \<open>handleSaveTask\<close> builds from the form.\<close>

definition form_schedule :: "TaskForm \<Rightarrow> ScheduleConfig" where
  "form_schedule form =
     normalizeSchedule
       \<lparr>repeatMode = formRepeatMode form,
        dailyTimes = Some (formDailyTimes form),
        weeklyDays = Some (formWeeklyDays form),
        weeklyTimes = Some (formWeeklyTimes form),
        intervalHours = formIntervalHours form,
        intervalStartTime = Some (formIntervalStart form),
        intervalEndTime = Some (formIntervalEnd form),
        selectedModels = formSelectedModels form,
        selectedAccounts = formSelectedAccounts form,
        crontab = (if formTriggerMode form = Crontab then Some (trim (formCrontab form)) else None),
        wakeOnReset = Some (formTriggerMode form = QuotaReset),
        customPrompt = (if trim (formCustomPrompt form) \<noteq> [] then Some (trim (formCustomPrompt form)) else None),
        maxOutputTokens = Some (normalizeMaxOutputTokens (formMaxOutputTokens form) 0),
        timeWindowEnabled = Some (if formTriggerMode form = QuotaReset then formTimeWindowEnabled form else False),
        timeWindowStart =
          (if formTriggerMode form = QuotaReset \<and> formTimeWindowEnabled form
           then Some (formTimeWindowStart form) else None),
        timeWindowEnd =
          (if formTriggerMode form = QuotaReset \<and> formTimeWindowEnabled form
           then Some (formTimeWindowEnd form) else None),
        fallbackTimes =
          (if formTriggerMode form = QuotaReset \<and> formTimeWindowEnabled form
           then Some (formFallbackTimes form) else None)\<rparr>"

text \<open>
  \<open>handleSaveTask\<close>: a validation error, or the saved task with the new task list.
  \<open>now\<close> is \<open>Date.now()\<close> and \<open>fresh\<close> the identifier made for a new task.
\<close>

definition handleSaveTask ::
  "TaskForm \<Rightarrow> WakeupTask list \<Rightarrow> int \<Rightarrow> string \<Rightarrow> SaveError + (WakeupTask \<times> WakeupTask list)" where
  "handleSaveTask form prev now fresh =
     (if trim (formName form) = [] then Inl NameRequired
      else if formSelectedAccounts form = [] then Inl AccountRequired
      else if formSelectedModels form = [] then Inl ModelRequired
      else if formTriggerMode form = Crontab \<and> trim (formCrontab form) = [] then Inl CrontabRequired
      else
        (let editing = (case editingTaskId form of Some (c # cs) \<Rightarrow> Some (c # cs) | _ \<Rightarrow> None);
             found = (case editing of Some i \<Rightarrow> find (\<lambda>t. task_id t = i) prev | None \<Rightarrow> None);
             baseTask =
               \<lparr>task_id = (case editing of Some i \<Rightarrow> i | None \<Rightarrow> fresh),
                name = trim (formName form),
                enabled = formEnabled form,
                createdAt = (case found of Some t \<Rightarrow> if createdAt t \<noteq> 0 then createdAt t else now
                             | None \<Rightarrow> now),
                lastRunAt = (case found of Some t \<Rightarrow> lastRunAt t | None \<Rightarrow> None),
                schedule = form_schedule form\<rparr>
         in Inr (baseTask,
                 if list_ex (\<lambda>t. task_id t = task_id baseTask) prev
                 then map (\<lambda>t. if task_id t = task_id baseTask then baseTask else t) prev
                 else baseTask # prev)))"

section \<open>Storage keys and their legacy names\<close>

text \<open>\<open>localStorage\<close> is a map from keys to strings; \<open>getItem\<close> of an absent key is
  \<open>null\<close> (\<open>None\<close>). Failures of the storage itself are not modelled.\<close>

type_synonym Storage = "string \<rightharpoonup> string"

definition readStorageWithLegacy :: "string \<Rightarrow> string \<Rightarrow> Storage \<Rightarrow> string option \<times> Storage" where
  "readStorageWithLegacy key legacyKey st =
     (case st key of
        Some v \<Rightarrow> (Some v, st)
      | None \<Rightarrow>
          (case st legacyKey of
             Some legacyValue \<Rightarrow> (Some legacyValue, (st(key \<mapsto> legacyValue))(legacyKey := None))
           | None \<Rightarrow> (None, st)))"

definition writeStorageAndCleanupLegacy :: "string \<Rightarrow> string \<Rightarrow> string \<Rightarrow> Storage \<Rightarrow> Storage" where
  "writeStorageAndCleanupLegacy key legacyKey v st =
     (let st' = st(key \<mapsto> v)
      in if legacyKey \<noteq> key then st'(legacyKey := None) else st')"

text \<open>
  The instance cache of \<open>createInstanceStore\<close>. \<open>parse\<close> stands for \<open>JSON.parse\<close>
  followed by \<open>Array.isArray\<close>: \<open>None\<close> when the text does not parse or is not an array.
\<close>

definition parseCachedInstances :: "(string \<Rightarrow> 'a list option) \<Rightarrow> string option \<Rightarrow> 'a list option" where
  "parseCachedInstances parse raw =
     (case raw of
        Some (c # cs) \<Rightarrow> Some (case parse (c # cs) of Some parsed \<Rightarrow> parsed | None \<Rightarrow> [])
      | _ \<Rightarrow> None)"

fun load_legacy_instances ::
  "(string \<Rightarrow> 'a list option) \<Rightarrow> string \<Rightarrow> string list \<Rightarrow> Storage \<Rightarrow> 'a list \<times> Storage" where
  "load_legacy_instances parse cacheKey [] st = ([], st)"
| "load_legacy_instances parse cacheKey (legacyKey # rest) st =
     (case st legacyKey of
        Some legacyRaw \<Rightarrow>
          (case parseCachedInstances parse (Some legacyRaw) of
             Some legacyParsed \<Rightarrow> (legacyParsed, (st(cacheKey \<mapsto> legacyRaw))(legacyKey := None))
           | None \<Rightarrow> load_legacy_instances parse cacheKey rest st)
      | None \<Rightarrow> load_legacy_instances parse cacheKey rest st)"

definition loadCachedInstances ::
  "(string \<Rightarrow> 'a list option) \<Rightarrow> string \<Rightarrow> string list \<Rightarrow> Storage \<Rightarrow> 'a list \<times> Storage" where
  "loadCachedInstances parse cacheKey legacyCacheKeys st =
     (case parseCachedInstances parse (st cacheKey) of
        Some current \<Rightarrow> (current, st)
      | None \<Rightarrow> load_legacy_instances parse cacheKey legacyCacheKeys st)"

definition persistInstancesCache ::
  "('a list \<Rightarrow> string) \<Rightarrow> string \<Rightarrow> string list \<Rightarrow> 'a list \<Rightarrow> Storage \<Rightarrow> Storage" where
  "persistInstancesCache stringify cacheKey legacyCacheKeys instances st =
     fold (\<lambda>legacyKey s. if legacyKey \<noteq> cacheKey then s(legacyKey := None) else s)
       legacyCacheKeys (st(cacheKey \<mapsto> stringify instances))"

section \<open>Notions used in the statements\<close>

text \<open>The candidates of a list that are valid dates strictly after \<open>now\<close>, in order.\<close>

fun future :: "int \<Rightarrow> int option list \<Rightarrow> int list" where
  "future now [] = []"
| "future now (None # cs) = future now cs"
| "future now (Some d # cs) = (if now < d then d # future now cs else future now cs)"

text \<open>A zero-padded \<open>HH:MM\<close> time of day, and its milliseconds after midnight.\<close>

definition valid_time :: "string \<Rightarrow> bool" where
  "valid_time s \<longleftrightarrow>
     length s = 5 \<and> is_digit (s ! 0) \<and> is_digit (s ! 1) \<and> s ! 2 = CHR '':''
     \<and> is_digit (s ! 3) \<and> is_digit (s ! 4)
     \<and> digits_val (take 2 s) \<le> 23 \<and> digits_val (drop 3 s) \<le> 59"

definition time_of_day :: "string \<Rightarrow> int" where
  "time_of_day s = digits_val (take 2 s) * MS_PER_HOUR + digits_val (drop 3 s) * MS_PER_MINUTE"

subsection \<open>Concrete inputs\<close>

text \<open>A schedule as an older version may have stored it.\<close>

definition legacy_schedule :: ScheduleConfig where
  "legacy_schedule =
     \<lparr>repeatMode = Interval, dailyTimes = Some [''09:30'', ''06:00''], weeklyDays = Some [],
      weeklyTimes = None, intervalHours = Some (- 1), intervalStartTime = Some [],
      intervalEndTime = Some ''21:00'', selectedModels = [''codex-weekly''],
      selectedAccounts = [], crontab = None, wakeOnReset = None, customPrompt = None,
      maxOutputTokens = None, timeWindowEnabled = None, timeWindowStart = None,
      timeWindowEnd = None, fallbackTimes = Some [''12:00'']\<rparr>"

definition daily_example :: ScheduleConfig where
  "daily_example =
     \<lparr>repeatMode = Daily, dailyTimes = Some [''09:30'', ''06:00''], weeklyDays = Some [1, 3],
      weeklyTimes = Some [''08:15''], intervalHours = Some 4, intervalStartTime = Some ''07:00'',
      intervalEndTime = Some ''22:00'', selectedModels = [''codex-hourly''],
      selectedAccounts = [''a1@example.com''], crontab = None, wakeOnReset = None, customPrompt = None,
      maxOutputTokens = Some 0, timeWindowEnabled = None, timeWindowStart = None,
      timeWindowEnd = None, fallbackTimes = None\<rparr>"

text \<open>Monday 1 January 2024, 10:00 local time.\<close>

abbreviation monday_10 :: int where "monday_10 \<equiv> 1704103200000"

text \<open>The history log is ordered by descending timestamp; its invariant.\<close>

definition newest_first :: "WakeupHistoryRecord list \<Rightarrow> bool" where
  "newest_first xs = sorted_wrt (\<lambda>a b. timestamp b \<le> timestamp a) xs"

definition history_inv :: "WakeupHistoryRecord list \<Rightarrow> bool" where
  "history_inv h \<longleftrightarrow> length h \<le> MAX_HISTORY_ITEMS \<and> newest_first h"

text \<open>Two accounts, the first stored with a capital letter, and a remote service that
  rejects every call for the first and answers every call for the second.\<close>

definition account_a1 :: Account where
  "account_a1 = \<lparr>account_id = ''id-1'', email = ''A1@example.com''\<rparr>"

definition account_a2 :: Account where
  "account_a2 = \<lparr>account_id = ''id-2'', email = ''a2@example.com''\<rparr>"

definition example_env :: TestEnv where
  "example_env =
     \<lparr>invoke = (\<lambda>accountId model p k.
                  if accountId = ''id-1'' then Rejected ''quota exceeded''
                  else Fulfilled \<lparr>reply = ''hello'', durationMs = Some 120\<rparr>),
      clock = (\<lambda>k. monday_10 + int k),
      new_id = (\<lambda>i. ''record''),
      label = ''Run test'',
      format_message = (\<lambda>model v d. reply v)\<rparr>"

definition example_form :: TestForm where
  "example_form =
     \<lparr>testing = False, testSelectedModels = [''codex-hourly''],
      testSelectedAccounts = [''a1@example.com'', ''a2@example.com''],
      testCustomPrompt = '''', testMaxOutputTokens = 0\<rparr>"

text \<open>The hours \<open>h, h + interval, ...\<close> up to \<open>endH\<close>, for a positive \<open>interval\<close>.\<close>

function hours_upto :: "int \<Rightarrow> int \<Rightarrow> int \<Rightarrow> int list" where
  "hours_upto h endH interval =
     (if 0 < interval \<and> h \<le> endH then h # hours_upto (h + interval) endH interval else [])"
  by pat_completeness auto
termination
  by (relation "measure (\<lambda>(h, endH, interval). nat (endH - h + 1))") auto

text \<open>
  The window and the step that the interval mode reads from a schedule:
  \<open>config.intervalStartTime || '07:00'\<close>, the end time with its default \<open>22\<close>, and
  \<open>config.intervalHours || 4\<close>; the hour and the minute written in a valid time.
\<close>

definition interval_start :: "ScheduleConfig \<Rightarrow> string" where
  "interval_start config = string_or (intervalStartTime config) ''07:00''"

definition interval_end :: "ScheduleConfig \<Rightarrow> string" where
  "interval_end config = string_or (intervalEndTime config) ''22:00''"

definition interval_step :: "ScheduleConfig \<Rightarrow> int" where
  "interval_step config = (case intervalHours config of Some k \<Rightarrow> if k = 0 then 4 else k | None \<Rightarrow> 4)"

definition hour_of :: "string \<Rightarrow> int" where
  "hour_of s = digits_val (take 2 s)"

definition minute_of :: "string \<Rightarrow> int" where
  "minute_of s = digits_val (drop 3 s)"

definition interval_example :: ScheduleConfig where
  "interval_example =
     \<lparr>repeatMode = Interval, dailyTimes = Some [''08:00''], weeklyDays = Some [1, 2, 3, 4, 5],
      weeklyTimes = Some [''08:00''], intervalHours = Some 4, intervalStartTime = Some ''07:00'',
      intervalEndTime = Some ''22:00'', selectedModels = [''codex-hourly''],
      selectedAccounts = [''a1@example.com''], crontab = None, wakeOnReset = None, customPrompt = None,
      maxOutputTokens = Some 0, timeWindowEnabled = None, timeWindowStart = None,
      timeWindowEnd = None, fallbackTimes = None\<rparr>"

text \<open>Monday 1 January 2024, 06:00 local time.\<close>

abbreviation monday_06 :: int where "monday_06 \<equiv> 1704088800000"

text \<open>A stored task that carries both flags, and a form in crontab mode.\<close>

definition both_flags_task :: WakeupTask where
  "both_flags_task =
     \<lparr>task_id = ''task-1'', name = ''Morning'', enabled = True, createdAt = monday_06,
      lastRunAt = None,
      schedule = daily_example\<lparr>crontab := Some ''0 9 * * *'', wakeOnReset := Some True\<rparr>\<rparr>"

definition crontab_form :: TaskForm where
  "crontab_form =
     \<lparr>formName = ''Morning'', formEnabled = True, formTriggerMode = Crontab,
      formRepeatMode = Daily, formDailyTimes = [''08:00''], formWeeklyDays = [1, 2, 3, 4, 5],
      formWeeklyTimes = [''08:00''], formIntervalHours = Some 4, formIntervalStart = ''07:00'',
      formIntervalEnd = ''22:00'', formSelectedModels = [''codex-hourly''],
      formSelectedAccounts = [''a1@example.com''], formCustomPrompt = '''', formMaxOutputTokens = 0,
      formCrontab = ''0 9 * * *'', formTimeWindowEnabled = True, formTimeWindowStart = ''09:00'',
      formTimeWindowEnd = ''18:00'', formFallbackTimes = [''07:00''], editingTaskId = None\<rparr>"

text \<open>The storage keys of the task list, and a storage that holds both of them.\<close>

abbreviation TASKS_STORAGE_KEY :: string where
  "TASKS_STORAGE_KEY \<equiv> ''cockpit.codex.wakeup.tasks''"

abbreviation LEGACY_TASKS_STORAGE_KEY :: string where
  "LEGACY_TASKS_STORAGE_KEY \<equiv> ''agtools.codex.wakeup.tasks''"

definition both_keys_storage :: Storage where
  "both_keys_storage = [TASKS_STORAGE_KEY \<mapsto> ''[1]'', LEGACY_TASKS_STORAGE_KEY \<mapsto> ''[0]'']"

definition legacy_only_storage :: Storage where
  "legacy_only_storage = [LEGACY_TASKS_STORAGE_KEY \<mapsto> ''[0]'']"

text \<open>The task that \<open>loadTasks\<close> makes when nothing is stored: the default schedule,
  with no account selected.\<close>

definition default_task :: WakeupTask where
  "default_task =
     \<lparr>task_id = ''task-0'', name = ''Default'', enabled = True, createdAt = monday_06,
      lastRunAt = None,
      schedule =
        normalizeSchedule
          \<lparr>repeatMode = Daily, dailyTimes = Some [''08:00''], weeklyDays = Some [1, 2, 3, 4, 5],
           weeklyTimes = Some [''08:00''], intervalHours = Some 4, intervalStartTime = Some ''07:00'',
           intervalEndTime = Some ''22:00'', selectedModels = [''codex-hourly''],
           selectedAccounts = [], crontab = None, wakeOnReset = None, customPrompt = None,
           maxOutputTokens = Some 0, timeWindowEnabled = None, timeWindowStart = None,
           timeWindowEnd = None, fallbackTimes = None\<rparr>\<rparr>"

chapter \<open>Properties\<close>

section \<open>Normalisation of schedules\<close>

lemma nonempty_or_Some [simp]: "nonempty_or (Some (nonempty_or xs (d # ds))) e = nonempty_or xs (d # ds)"
  by (simp add: nonempty_or_def split: option.splits list.splits)

lemma string_or_Some [simp]: "string_or (Some (string_or s (d # ds))) e = string_or s (d # ds)"
  by (simp add: string_or_def split: option.splits list.splits)

text \<open>
  Claim C6, as the code has it. \<open>normalizeSchedule\<close> is idempotent. A non-empty
  \<open>dailyTimes\<close>, \<open>weeklyDays\<close>, \<open>weeklyTimes\<close> or \<open>fallbackTimes\<close> is returned as it
  is, and an empty or absent one becomes its default (\<open>08:00\<close>, the weekdays, \<open>08:00\<close>,
  \<open>07:00\<close>). A non-empty start or end of the interval window is kept, an empty or absent
  one becomes \<open>07:00\<close> or \<open>22:00\<close>. A positive \<open>intervalHours\<close> is kept; an absent, zero
  or negative one becomes \<open>4\<close>.
\<close>

theorem normalizeSchedule_idempotent_keeps_values:
  "normalizeSchedule (normalizeSchedule x) = normalizeSchedule x
   \<and> (\<forall>ts. dailyTimes x = Some ts \<and> ts \<noteq> [] \<longrightarrow> dailyTimes (normalizeSchedule x) = Some ts)
   \<and> (\<forall>ds. weeklyDays x = Some ds \<and> ds \<noteq> [] \<longrightarrow> weeklyDays (normalizeSchedule x) = Some ds)
   \<and> (\<forall>ts. weeklyTimes x = Some ts \<and> ts \<noteq> [] \<longrightarrow> weeklyTimes (normalizeSchedule x) = Some ts)
   \<and> (\<forall>ts. fallbackTimes x = Some ts \<and> ts \<noteq> [] \<longrightarrow> fallbackTimes (normalizeSchedule x) = Some ts)
   \<and> (dailyTimes x \<in> {None, Some []} \<longrightarrow> dailyTimes (normalizeSchedule x) = Some [''08:00''])
   \<and> (weeklyDays x \<in> {None, Some []} \<longrightarrow> weeklyDays (normalizeSchedule x) = Some [1, 2, 3, 4, 5])
   \<and> (weeklyTimes x \<in> {None, Some []} \<longrightarrow> weeklyTimes (normalizeSchedule x) = Some [''08:00''])
   \<and> (fallbackTimes x \<in> {None, Some []} \<longrightarrow> fallbackTimes (normalizeSchedule x) = Some [''07:00''])
   \<and> (\<forall>h. intervalHours x = Some h \<and> 0 < h \<longrightarrow> intervalHours (normalizeSchedule x) = Some h)
   \<and> ((\<forall>h. intervalHours x = Some h \<longrightarrow> h \<le> 0) \<longrightarrow> intervalHours (normalizeSchedule x) = Some 4)
   \<and> (\<forall>t. intervalStartTime x = Some t \<and> t \<noteq> [] \<longrightarrow> intervalStartTime (normalizeSchedule x) = Some t)
   \<and> (intervalStartTime x \<in> {None, Some []} \<longrightarrow> intervalStartTime (normalizeSchedule x) = Some ''07:00'')
   \<and> (\<forall>t. intervalEndTime x = Some t \<and> t \<noteq> [] \<longrightarrow> intervalEndTime (normalizeSchedule x) = Some t)
   \<and> (intervalEndTime x \<in> {None, Some []} \<longrightarrow> intervalEndTime (normalizeSchedule x) = Some ''22:00'')"
  by (auto simp add: normalizeSchedule_def nonempty_or_def string_or_def split: option.splits list.splits)

text \<open>
  The claim as stated lets only empty or absent fields be replaced. The stored schedule
  \<open>legacy_schedule\<close> has \<open>intervalHours = -1\<close>, present and not empty, and
  normalisation replaces it by \<open>4\<close>.
\<close>

theorem normalizeSchedule_replaces_negative_intervalHours:
  "intervalHours legacy_schedule = Some (- 1)
   \<and> intervalHours (normalizeSchedule legacy_schedule) = Some 4"
  by (simp add: legacy_schedule_def normalizeSchedule_def)

text \<open>The statement of C6 at \<open>legacy_schedule\<close>.\<close>

theorem normalizeSchedule_legacy_schedule:
  "normalizeSchedule (normalizeSchedule legacy_schedule) = normalizeSchedule legacy_schedule
   \<and> dailyTimes (normalizeSchedule legacy_schedule) = Some [''09:30'', ''06:00'']
   \<and> weeklyDays (normalizeSchedule legacy_schedule) = Some [1, 2, 3, 4, 5]
   \<and> weeklyTimes (normalizeSchedule legacy_schedule) = Some [''08:00'']
   \<and> fallbackTimes (normalizeSchedule legacy_schedule) = Some [''12:00'']
   \<and> intervalHours (normalizeSchedule legacy_schedule) = Some 4
   \<and> intervalStartTime (normalizeSchedule legacy_schedule) = Some ''07:00''
   \<and> intervalEndTime (normalizeSchedule legacy_schedule) = Some ''21:00''"
  using normalizeSchedule_idempotent_keeps_values [of legacy_schedule]
  by (simp add: legacy_schedule_def)

section \<open>The loops of the recurrence calculator\<close>

declare for_dayOffset.simps [simp del]

lemma future_append: "future now (xs @ ys) = future now xs @ future now ys"
  by (induction now xs rule: future.induct) auto

lemma future_map_Some: "future now (map Some xs) = filter (\<lambda>d. now < d) xs"
  by (induction xs) auto

lemma future_after: "d \<in> set (future now cs) \<Longrightarrow> now < d \<and> Some d \<in> set cs"
  by (induction now cs rule: future.induct) (auto split: if_splits)

lemma push_candidates_eq:
  "length results < count \<Longrightarrow>
   push_candidates mk now count xs results
     = results @ take (count - length results) (future now (map mk xs))"
proof (induction xs arbitrary: results)
  case Nil
  then show ?case by simp
next
  case (Cons x xs)
  show ?case
  proof (cases "mk x")
    case None
    then show ?thesis using Cons by simp
  next
    case (Some d)
    show ?thesis
    proof (cases "now < d")
      case False
      then show ?thesis using Cons Some by simp
    next
      case True
      show ?thesis
      proof (cases "count \<le> Suc (length results)")
        case stop: True
        then have "count - length results = Suc 0" using Cons.prems by simp
        then show ?thesis using Some True stop by simp
      next
        case go: False
        then have "length (results @ [d]) < count" by simp
        from Cons.IH [OF this] have
          "push_candidates mk now count xs (results @ [d])
             = (results @ [d]) @ take (count - length (results @ [d])) (future now (map mk xs))" .
        moreover have "count - length results = Suc (count - length (results @ [d]))"
          using go by simp
        ultimately show ?thesis using Some True go by simp
      qed
    qed
  qed
qed

lemma for_dayOffset_eq:
  assumes body: "\<And>d r. length r < count \<Longrightarrow> body d r = Some (r @ take (count - length r) (cs d))"
  shows "for_dayOffset horizon count body d0 results
           = Some (results @ take (count - length results) (concat (map cs [d0..<horizon])))"
proof (induction "horizon - d0" arbitrary: d0 results)
  case 0
  then show ?case by (simp add: for_dayOffset.simps)
next
  case (Suc k)
  then have lt: "d0 < horizon" and k: "k = horizon - Suc d0" by simp_all
  show ?case
  proof (cases "length results < count")
    case False
    then show ?thesis by (simp add: for_dayOffset.simps)
  next
    case True
    let ?r = "results @ take (count - length results) (cs d0)"
    have step: "for_dayOffset horizon count body d0 results = for_dayOffset horizon count body (Suc d0) ?r"
      using lt True body [OF True, of d0] by (subst for_dayOffset.simps) simp
    have up: "[d0..<horizon] = d0 # [Suc d0..<horizon]"
      using lt by (simp add: upt_conv_Cons)
    have "for_dayOffset horizon count body (Suc d0) ?r
            = Some (?r @ take (count - length ?r) (concat (map cs [Suc d0..<horizon])))"
      using Suc.hyps(1) [OF k] .
    then show ?thesis unfolding step up using True
      by (simp add: min_def)
  qed
qed

section \<open>Times of day\<close>

lemma length5E:
  assumes "length s = 5"
  obtains a b c d e where "s = [a, b, c, d, e]"
proof -
  from assms obtain a s1 where "s = a # s1" "length s1 = 4" by (cases s) auto
  moreover then obtain b s2 where "s1 = b # s2" "length s2 = 3" by (cases s1) auto
  moreover then obtain c s3 where "s2 = c # s3" "length s3 = 2" by (cases s2) auto
  moreover then obtain d s4 where "s3 = d # s4" "length s4 = 1" by (cases s3) auto
  moreover then obtain e where "s4 = [e]" by (cases s4) auto
  ultimately show ?thesis using that by simp
qed

lemma is_digit_not_special:
  "is_digit c \<Longrightarrow> \<not> is_space c \<and> c \<noteq> CHR ''-'' \<and> c \<noteq> CHR ''+'' \<and> c \<noteq> CHR '':''"
  by (auto simp add: is_digit_def is_space_def)

lemma Number_js_two_digits:
  "is_digit a \<Longrightarrow> is_digit b \<Longrightarrow> Number_js [a, b] = Some (digits_val [a, b])"
  by (simp add: Number_js_def trim_def unsigned_digits_def is_digit_not_special)

lemma start_of_day_shift: "start_of_day (now + int d * MS_PER_DAY) = start_of_day now + int d * MS_PER_DAY"
  by (simp add: start_of_day_def)

lemma time_candidate_valid:
  assumes "valid_time s"
  shows "time_candidate now d s = Some (start_of_day now + int d * MS_PER_DAY + time_of_day s)"
proof -
  from assms have "length s = 5" by (simp add: valid_time_def)
  then obtain a b c e f where s: "s = [a, b, c, e, f]" by (rule length5E)
  with assms have dg: "is_digit a" "is_digit b" "c = CHR '':''" "is_digit e" "is_digit f"
    by (simp_all add: valid_time_def)
  have sp: "split_char CHR '':'' s = [[a, b], [e, f]]"
    using dg by (simp add: s is_digit_not_special)
  show ?thesis
    unfolding time_candidate_def sp
    using dg
    by (simp add: Let_def num_at_def Number_js_two_digits at_day_time_def start_of_day_shift
        time_of_day_def s)
qed

lemma digit_val_bounds: "is_digit c \<Longrightarrow> 0 \<le> digit_val c \<and> digit_val c \<le> 9"
  by (auto simp add: is_digit_def digit_val_def)

lemma digit_val_less: "a < b \<Longrightarrow> digit_val a < digit_val b"
  by (simp add: digit_val_def less_char_def)

lemma time_of_day_bounds: "valid_time s \<Longrightarrow> 0 \<le> time_of_day s \<and> time_of_day s < MS_PER_DAY"
proof -
  assume v: "valid_time s"
  then have "length s = 5" by (simp add: valid_time_def)
  then obtain a b c e f where s: "s = [a, b, c, e, f]" by (rule length5E)
  with v have dg: "is_digit a" "is_digit b" "is_digit e" "is_digit f"
    and hi: "digits_val [a, b] \<le> 23" "digits_val [e, f] \<le> 59"
    by (simp_all add: valid_time_def)
  from dg have "0 \<le> digits_val [a, b]" "0 \<le> digits_val [e, f]"
    using digit_val_bounds by (simp_all add: digits_val_def)
  with hi show ?thesis by (simp add: time_of_day_def s)
qed

lemma time_of_day_mono:
  assumes "valid_time s" "valid_time t" "s < t"
  shows "time_of_day s < time_of_day t"
proof -
  from assms obtain a b c e f where s: "s = [a, b, c, e, f]"
    by (metis length5E valid_time_def)
  from assms obtain a' b' c' e' f' where t: "t = [a', b', c', e', f']"
    by (metis length5E valid_time_def)
  from assms(1) s have ds: "is_digit a" "is_digit b" "c = CHR '':''" "is_digit e" "is_digit f"
    "digits_val [e, f] \<le> 59"
    by (simp_all add: valid_time_def)
  from assms(2) t have dt: "is_digit a'" "is_digit b'" "c' = CHR '':''" "is_digit e'" "is_digit f'"
    "digits_val [e', f'] \<le> 59"
    by (simp_all add: valid_time_def)
  note bs = digit_val_bounds [OF ds(1)] digit_val_bounds [OF ds(2)] digit_val_bounds [OF ds(4)]
    digit_val_bounds [OF ds(5)] digit_val_bounds [OF dt(1)] digit_val_bounds [OF dt(2)]
    digit_val_bounds [OF dt(4)] digit_val_bounds [OF dt(5)]
  from assms(3) have
    "a < a' \<or> a = a' \<and> (b < b' \<or> b = b' \<and> (e < e' \<or> e = e' \<and> f < f'))"
    by (simp add: s t ds dt)
  then consider "digit_val a < digit_val a'"
    | "a = a'" "digit_val b < digit_val b'"
    | "a = a'" "b = b'" "digit_val e < digit_val e'"
    | "a = a'" "b = b'" "e = e'" "digit_val f < digit_val f'"
    using digit_val_less by blast
  then show ?thesis
    using bs ds(6) dt(6)
    by cases (simp_all add: time_of_day_def s t digits_val_def)
qed

lemma sorted_wrt_day_blocks:
  fixes tod :: "'a \<Rightarrow> int"
  assumes ts: "sorted_wrt (\<lambda>s t. tod s < tod t) ts"
    and rng: "\<And>t. t \<in> set ts \<Longrightarrow> 0 \<le> tod t \<and> tod t < MS_PER_DAY"
    and ds: "sorted_wrt (<) ds"
  shows "sorted_wrt (<) (concat (map (\<lambda>d::nat. map (\<lambda>t. base + int d * MS_PER_DAY + tod t) ts) ds))"
  using ds
proof (induction ds)
  case Nil
  then show ?case by simp
next
  case (Cons d ds)
  have blk: "sorted_wrt (<) (map (\<lambda>t. base + int d * MS_PER_DAY + tod t) ts)"
    using ts by (simp add: sorted_wrt_map)
  have cross: "x < y"
    if "x \<in> set (map (\<lambda>t. base + int d * MS_PER_DAY + tod t) ts)"
      and "y \<in> set (concat (map (\<lambda>d::nat. map (\<lambda>t. base + int d * MS_PER_DAY + tod t) ts) ds))"
    for x y
  proof -
    from that(1) obtain s where s: "s \<in> set ts" "x = base + int d * MS_PER_DAY + tod s" by auto
    from that(2) obtain d' t where t: "d' \<in> set ds" "t \<in> set ts" "y = base + int d' * MS_PER_DAY + tod t"
      by auto
    from Cons.prems t(1) have "d < d'" by simp
    then have "int d + 1 \<le> int d'" by simp
    then have "(int d + 1) * MS_PER_DAY \<le> int d' * MS_PER_DAY" by simp
    with rng [OF s(1)] rng [OF t(2)] show ?thesis unfolding s t by simp
  qed
  from Cons have "sorted_wrt (<) (concat (map (\<lambda>d::nat. map (\<lambda>t. base + int d * MS_PER_DAY + tod t) ts) ds))"
    by simp
  with blk cross show ?case by (simp add: sorted_wrt_append)
qed

lemma sorted_wrt_less_filter: "sorted_wrt (<) (xs :: int list) \<Longrightarrow> sorted_wrt (<) (filter P xs)"
  by (induction xs) auto

lemma sorted_wrt_less_take: "sorted_wrt (<) (xs :: int list) \<Longrightarrow> sorted_wrt (<) (take n xs)"
  by (metis append_take_drop_id sorted_wrt_append)

lemma hd_least: "sorted_wrt (<) (xs :: int list) \<Longrightarrow> x \<in> set xs \<Longrightarrow> hd xs \<le> x"
  by (cases xs) auto

lemma now_before_next_day: "now < start_of_day now + MS_PER_DAY"
proof -
  have "now mod MS_PER_DAY < MS_PER_DAY" by simp
  then show ?thesis unfolding start_of_day_def by linarith
qed

lemma daily_runs_eq:
  assumes "repeatMode config = Daily" "dailyTimes config = Some ts" "ts \<noteq> []"
    "\<forall>t\<in>set ts. valid_time t"
  shows "calculateNextRuns config now count
           = Some (take count (filter (\<lambda>d. now < d)
               (concat (map (\<lambda>d. map (\<lambda>t. start_of_day now + int d * MS_PER_DAY + time_of_day t) (sort ts))
                  [0..<7]))))"
proof -
  let ?cs = "\<lambda>d. future now (map (time_candidate now d) (sort ts))"
  have ne: "nonempty_or (dailyTimes config) [] = ts"
    using assms(2,3) by (cases ts) (simp_all add: nonempty_or_def)
  have loop: "for_dayOffset 7 count
       (\<lambda>dayOffset results. Some (push_candidates (time_candidate now dayOffset) now count (sort ts) results))
       0 [] = Some ([] @ take (count - length ([] :: int list)) (concat (map ?cs [0..<7])))"
    by (rule for_dayOffset_eq) (simp add: push_candidates_eq)
  have cs: "?cs d = filter (\<lambda>x. now < x)
      (map (\<lambda>t. start_of_day now + int d * MS_PER_DAY + time_of_day t) (sort ts))" for d
  proof -
    have "map (time_candidate now d) (sort ts)
        = map Some (map (\<lambda>t. start_of_day now + int d * MS_PER_DAY + time_of_day t) (sort ts))"
      using assms(4) by (simp add: time_candidate_valid)
    then show ?thesis by (simp only: future_map_Some)
  qed
  have "concat (map ?cs [0..<7]) = filter (\<lambda>x. now < x)
      (concat (map (\<lambda>d. map (\<lambda>t. start_of_day now + int d * MS_PER_DAY + time_of_day t) (sort ts)) [0..<7]))"
    unfolding cs by (simp only: filter_concat map_map comp_def)
  with loop show ?thesis
    unfolding calculateNextRuns_def using assms(1,3) by (simp add: ne)
qed

section \<open>Daily schedules\<close>

lemma mem_day_blocks:
  "x \<in> set (concat (map (\<lambda>d. map (f d) ys) [0..<n])) \<longleftrightarrow> (\<exists>d<n. \<exists>t\<in>set ys. x = f d t)"
  by auto

lemma length_take_le: "length (take n xs) \<le> n"
  by simp

lemma take_filter_holds: "r \<in> set (take n (filter P xs)) \<Longrightarrow> P r"
  by (auto dest: in_set_takeD)

text \<open>
  Claim C1. For a daily schedule whose \<open>dailyTimes\<close> is a non-empty list of distinct,
  valid, zero-padded \<open>HH:MM\<close> times, for every \<open>now\<close> and \<open>count\<close>,
  \<open>calculateNextRuns\<close> returns; the instants returned are at most \<open>count\<close>, all
  strictly after \<open>now\<close> and strictly increasing; and when \<open>count\<close> is positive the
  first one exists, is a configured time on one of the seven days from today, and is
  the earliest such time strictly after \<open>now\<close>.
\<close>

theorem calculateNextRuns_daily:
  assumes "repeatMode config = Daily" and "dailyTimes config = Some ts" and "ts \<noteq> []"
    and "distinct ts" and "\<forall>t\<in>set ts. valid_time t"
  shows "\<exists>runs. calculateNextRuns config now count = Some runs
     \<and> length runs \<le> count
     \<and> (\<forall>r\<in>set runs. now < r)
     \<and> sorted_wrt (<) runs
     \<and> (0 < count \<longrightarrow>
          runs \<noteq> []
          \<and> (\<exists>d<7. \<exists>t\<in>set ts. hd runs = start_of_day now + int d * MS_PER_DAY + time_of_day t)
          \<and> (\<forall>d<7. \<forall>t\<in>set ts.
                now < start_of_day now + int d * MS_PER_DAY + time_of_day t \<longrightarrow>
                hd runs \<le> start_of_day now + int d * MS_PER_DAY + time_of_day t))"
proof -
  let ?c = "\<lambda>(d::nat) t. start_of_day now + int d * MS_PER_DAY + time_of_day t"
  let ?all = "concat (map (\<lambda>d. map (?c d) (sort ts)) [0..<7])"
  let ?fut = "filter (\<lambda>x. now < x) ?all"
  let ?runs = "take count ?fut"
  have eq: "calculateNextRuns config now count = Some ?runs"
    using assms(1,2,3,5) by (rule daily_runs_eq)
  have valid: "\<And>t. t \<in> set (sort ts) \<Longrightarrow> valid_time t" using assms(5) by simp
  have "sorted_wrt (<) (sort ts)"
    using assms(4) by (simp add: strict_sorted_iff)
  then have "sorted_wrt (\<lambda>s t. time_of_day s < time_of_day t) (sort ts)"
    by (rule sorted_wrt_mono_rel [rotated]) (simp add: time_of_day_mono valid)
  then have all_sorted: "sorted_wrt (<) ?all"
    by (rule sorted_wrt_day_blocks) (simp_all add: time_of_day_bounds valid)
  then have fut_sorted: "sorted_wrt (<) ?fut" by (rule sorted_wrt_less_filter)
  then have runs_sorted: "sorted_wrt (<) ?runs" by (rule sorted_wrt_less_take)
  have mem: "x \<in> set ?all \<longleftrightarrow> (\<exists>d<7. \<exists>t\<in>set ts. x = ?c d t)" for x
    by (simp only: mem_day_blocks set_sort)
  have after: "\<forall>r\<in>set ?runs. now < r"
    using take_filter_holds [of _ count "\<lambda>x. now < x" ?all] by blast
  have first: "?runs \<noteq> []
      \<and> (\<exists>d<7. \<exists>t\<in>set ts. hd ?runs = ?c d t)
      \<and> (\<forall>d<7. \<forall>t\<in>set ts. now < ?c d t \<longrightarrow> hd ?runs \<le> ?c d t)" if pos: "0 < count"
  proof -
    from assms(3) obtain t0 where t0: "t0 \<in> set ts" by (cases ts) auto
    have "now < ?c 1 t0"
      using now_before_next_day [of now] time_of_day_bounds [of t0] assms(5) t0 by simp
    moreover have "?c 1 t0 \<in> set ?all" unfolding mem using t0 by (intro exI [of _ 1]) auto
    ultimately have "?c 1 t0 \<in> set ?fut" by simp
    then have ne: "?fut \<noteq> []" by (metis empty_iff empty_set)
    with pos have hd_eq: "hd ?runs = hd ?fut" and ne': "?runs \<noteq> []" by (simp_all add: hd_take)
    from ne have "hd ?fut \<in> set ?fut" by (rule hd_in_set)
    then have "hd ?fut \<in> set ?all" by simp
    then have ex: "\<exists>d<7. \<exists>t\<in>set ts. hd ?runs = ?c d t" unfolding hd_eq mem .
    have "hd ?runs \<le> ?c d t" if "d < 7" "t \<in> set ts" "now < ?c d t" for d t
    proof -
      from that(1,2) have "?c d t \<in> set ?all" unfolding mem by blast
      with that(3) have "?c d t \<in> set ?fut" by simp
      with fut_sorted show ?thesis unfolding hd_eq by (rule hd_least)
    qed
    with ne' ex show ?thesis by blast
  qed
  have len: "length ?runs \<le> count" by (rule length_take_le)
  from eq len after runs_sorted first show ?thesis by blast
qed

lemma valid_time_examples: "valid_time ''09:30''" "valid_time ''06:00''"
  by (simp_all add: valid_time_def is_digit_def digits_val_def digit_val_def)

text \<open>The statement of C1 for the times \<open>09:30\<close> and \<open>06:00\<close>, on a Monday at 10:00, with three results asked for.\<close>

theorem calculateNextRuns_daily_witness:
  "(repeatMode daily_example = Daily \<and> dailyTimes daily_example = Some [''09:30'', ''06:00'']
    \<and> [''09:30'', ''06:00''] \<noteq> [] \<and> distinct [''09:30'', ''06:00'']
    \<and> valid_time ''09:30'' \<and> valid_time ''06:00'')
   \<and> (\<exists>runs. calculateNextRuns daily_example monday_10 3 = Some runs
        \<and> length runs \<le> 3 \<and> (\<forall>r\<in>set runs. monday_10 < r) \<and> sorted_wrt (<) runs
        \<and> runs \<noteq> []
        \<and> (\<forall>d<7. \<forall>t\<in>set [''09:30'', ''06:00''].
              monday_10 < start_of_day monday_10 + int d * MS_PER_DAY + time_of_day t \<longrightarrow>
              hd runs \<le> start_of_day monday_10 + int d * MS_PER_DAY + time_of_day t))"
proof -
  have h: "repeatMode daily_example = Daily" "dailyTimes daily_example = Some [''09:30'', ''06:00'']"
    "[''09:30'', ''06:00''] \<noteq> []" "distinct [''09:30'', ''06:00'']"
    "\<forall>t\<in>set [''09:30'', ''06:00'']. valid_time t"
    by (simp_all add: daily_example_def valid_time_examples)
  have pos: "0 < (3::nat)" by simp
  from calculateNextRuns_daily [OF h, of monday_10 3] pos h valid_time_examples show ?thesis by blast
qed

section \<open>The history log is bounded and ordered\<close>

lemma newest_first_iff: "newest_first xs \<longleftrightarrow> sorted (map (\<lambda>r. - timestamp r) xs)"
  by (simp add: newest_first_def sorted_map)

lemma newest_first_sort: "newest_first (sort_by_timestamp_desc xs)"
  by (simp add: newest_first_iff sort_by_timestamp_desc_def)

lemma newest_first_take: "newest_first xs \<Longrightarrow> newest_first (take n xs)"
  by (simp add: newest_first_def sorted_wrt_take)

lemma sort_newest_first_id: "newest_first xs \<Longrightarrow> sort_by_timestamp_desc xs = xs"
  by (simp add: newest_first_iff sort_by_timestamp_desc_def sort_key_id_if_sorted)

lemma set_kept_records: "set (kept_records items) = {r. RecordItem r \<in> set items}"
  by (induction items rule: kept_records.induct) auto

lemma history_inv_load: "history_inv (loadHistory outcome)"
  by (cases outcome) (simp_all add: loadHistory_def history_inv_def newest_first_take newest_first_sort,
      simp_all add: newest_first_def)

lemma history_inv_append: "history_inv prev \<Longrightarrow> history_inv (appendHistoryRecords records prev)"
  by (simp add: appendHistoryRecords_def history_inv_def newest_first_take newest_first_sort)

lemma history_inv_clear: "history_inv prev \<Longrightarrow> history_inv (clearHistoryRecords confirmed cleared prev)"
  by (simp add: clearHistoryRecords_def history_inv_def newest_first_def)

lemma history_inv_step: "history_inv prev \<Longrightarrow> history_inv (history_step prev op)"
  by (cases op) (simp_all add: history_inv_load history_inv_append history_inv_clear)

lemma history_inv_foldl: "history_inv h \<Longrightarrow> history_inv (foldl history_step h ops)"
  by (induction ops arbitrary: h) (simp_all add: history_inv_step)

lemma history_inv_after: "history_inv (history_after ops)"
  unfolding history_after_def by (rule history_inv_foldl) (simp add: history_inv_def newest_first_def)

lemma append_on_inv:
  "history_inv prev \<Longrightarrow>
   appendHistoryRecords records prev = take MAX_HISTORY_ITEMS (sort_by_timestamp_desc (records @ prev))"
  by (simp add: appendHistoryRecords_def history_inv_def sort_newest_first_id)

text \<open>
  Claim C3. After any sequence of load, append and clear operations from the empty log,
  the log holds at most 100 records and is sorted by timestamp descending. On such a log
  \<open>appendHistoryRecords\<close> is: put the new records before the old ones, sort by
  timestamp descending, keep the first 100. \<open>loadHistory\<close> of an array is: keep the
  items that are records with a numeric timestamp, sort, keep the first 100. The sort
  returns the same records, in descending order of timestamp.
\<close>

theorem history_log_bounded_newest_first:
  "length (history_after ops) \<le> MAX_HISTORY_ITEMS
   \<and> sorted_wrt (\<lambda>a b. timestamp b \<le> timestamp a) (history_after ops)
   \<and> appendHistoryRecords records (history_after ops)
       = take MAX_HISTORY_ITEMS (sort_by_timestamp_desc (records @ history_after ops))
   \<and> loadHistory (Loaded items) = take MAX_HISTORY_ITEMS (sort_by_timestamp_desc (kept_records items))
   \<and> set (kept_records items) = {r. RecordItem r \<in> set items}
   \<and> set (sort_by_timestamp_desc xs) = set xs
   \<and> length (sort_by_timestamp_desc xs) = length xs
   \<and> sorted_wrt (\<lambda>a b. timestamp b \<le> timestamp a) (sort_by_timestamp_desc xs)"
  using history_inv_after [of ops] append_on_inv [OF history_inv_after, of records ops]
    newest_first_sort [of xs]
  by (simp add: history_inv_def newest_first_def loadHistory_def set_kept_records
      sort_by_timestamp_desc_def)

section \<open>The fan-out of the immediate test\<close>

lemma toLowerCase_examples:
  "toLowerCase ''A1@example.com'' = ''a1@example.com''"
  "toLowerCase ''a1@example.com'' = ''a1@example.com''"
  "toLowerCase ''a2@example.com'' = ''a2@example.com''"
  by code_simp+

lemma resolve_example:
  "resolveAccounts [account_a1, account_a2] (testSelectedAccounts example_form) = [account_a1, account_a2]"
  by (simp add: resolveAccounts_def accountByEmail_def example_form_def List.map_filter_def
      toLowerCase_examples account_a1_def account_a2_def)

lemma length_cells: "length (concat (map (\<lambda>x. map (f x) ys) xs)) = length xs * length ys"
  by (induction xs) simp_all

lemma success_history_items:
  "map (success \<circ> (\<lambda>(i, a). history_item env p s n i a)) (enumerate k xs)
     = map (\<lambda>a. \<not> is_rejected (settled a)) xs"
  by (induction xs arbitrary: k) (simp_all add: history_item_def Let_def)

lemma runImmediateTest_all_settle:
  assumes "\<not> testing form" and "testSelectedModels form \<noteq> []"
    and "resolveAccounts accounts (testSelectedAccounts form) \<noteq> []"
  shows "\<exists>run. runImmediateTest env form accounts tasks prev = Some run
     \<and> length (run_actions run)
         = length (resolveAccounts accounts (testSelectedAccounts form)) * length (testSelectedModels form)
     \<and> length (run_items run) = length (run_actions run)
     \<and> map success (run_items run) = map (\<lambda>a. \<not> is_rejected (settled a)) (run_actions run)
     \<and> run_history run = appendHistoryRecords (run_items run) prev"
  using assms
  by (simp add: runImmediateTest_def Let_def length_cells success_history_items)

text \<open>
  Claim C4. With no test running, one selected model \<open>c1\<close> and selected accounts that
  resolve to \<open>a1\<close> and \<open>a2\<close>, \<open>runImmediateTest\<close> dispatches exactly two actions, one
  for \<open>(a1, c1)\<close> and one for \<open>(a2, c1)\<close>. When one of the two calls is rejected and the
  other fulfilled, the history items are exactly one failure and one success, each for
  its own account, the notice reports one failed action, and both items are handed to
  \<open>appendHistoryRecords\<close>.
\<close>

theorem fan_out_two_accounts_one_model:
  assumes "\<not> testing form" and "testSelectedModels form = [c1]"
    and "resolveAccounts accounts (testSelectedAccounts form) = [a1, a2]"
    and "is_rejected (invoke env (account_id a1) c1 (test_prompt form) (test_max_tokens form tasks))
         \<noteq> is_rejected (invoke env (account_id a2) c1 (test_prompt form) (test_max_tokens form tasks))"
  shows "\<exists>run. runImmediateTest env form accounts tasks prev = Some run
     \<and> map (\<lambda>a. (action_accountId a, action_modelId a)) (run_actions run)
         = [(account_id a1, c1), (account_id a2, c1)]
     \<and> map (\<lambda>a. settled a) (run_actions run)
         = [invoke env (account_id a1) c1 (test_prompt form) (test_max_tokens form tasks),
            invoke env (account_id a2) c1 (test_prompt form) (test_max_tokens form tasks)]
     \<and> map (\<lambda>r. (accountEmail r, modelId r, success r)) (run_items run)
         = [(email a1, c1, \<not> is_rejected (invoke env (account_id a1) c1 (test_prompt form) (test_max_tokens form tasks))),
            (email a2, c1, \<not> is_rejected (invoke env (account_id a2) c1 (test_prompt form) (test_max_tokens form tasks)))]
     \<and> length (filter success (run_items run)) = 1
     \<and> length (filter (\<lambda>r. \<not> success r) (run_items run)) = 1
     \<and> run_notice run = Some (TestFailed 1)
     \<and> run_history run = appendHistoryRecords (run_items run) prev"
  using assms
  by (auto simp add: runImmediateTest_def Let_def history_item_def)

text \<open>The statement of C4 for the accounts \<open>account_a1\<close> and \<open>account_a2\<close>: the call for
  the first is rejected, the call for the second is fulfilled.\<close>

theorem fan_out_two_accounts_one_model_witness:
  "(\<not> testing example_form \<and> testSelectedModels example_form = [''codex-hourly'']
    \<and> resolveAccounts [account_a1, account_a2] (testSelectedAccounts example_form) = [account_a1, account_a2]
    \<and> is_rejected (invoke example_env (account_id account_a1) ''codex-hourly'' (test_prompt example_form)
          (test_max_tokens example_form []))
       \<noteq> is_rejected (invoke example_env (account_id account_a2) ''codex-hourly'' (test_prompt example_form)
          (test_max_tokens example_form [])))
   \<and> (\<exists>run. runImmediateTest example_env example_form [account_a1, account_a2] [] [] = Some run
        \<and> map (\<lambda>a. (action_accountId a, action_modelId a)) (run_actions run)
            = [(''id-1'', ''codex-hourly''), (''id-2'', ''codex-hourly'')]
        \<and> map (\<lambda>r. (accountEmail r, modelId r, success r)) (run_items run)
            = [(''A1@example.com'', ''codex-hourly'', False), (''a2@example.com'', ''codex-hourly'', True)]
        \<and> length (filter success (run_items run)) = 1
        \<and> length (filter (\<lambda>r. \<not> success r) (run_items run)) = 1
        \<and> run_notice run = Some (TestFailed 1))"
proof -
  have h: "\<not> testing example_form" "testSelectedModels example_form = [''codex-hourly'']"
    "resolveAccounts [account_a1, account_a2] (testSelectedAccounts example_form) = [account_a1, account_a2]"
    "is_rejected (invoke example_env (account_id account_a1) ''codex-hourly'' (test_prompt example_form)
          (test_max_tokens example_form []))
       \<noteq> is_rejected (invoke example_env (account_id account_a2) ''codex-hourly'' (test_prompt example_form)
          (test_max_tokens example_form []))"
    by (simp_all add: resolve_example)
      (simp_all add: example_form_def example_env_def account_a1_def account_a2_def is_rejected_def)
  have vals: "account_id account_a1 = ''id-1''" "account_id account_a2 = ''id-2''"
    "email account_a1 = ''A1@example.com''" "email account_a2 = ''a2@example.com''"
    "is_rejected (invoke example_env ''id-1'' ''codex-hourly'' (test_prompt example_form)
       (test_max_tokens example_form []))"
    "\<not> is_rejected (invoke example_env ''id-2'' ''codex-hourly'' (test_prompt example_form)
       (test_max_tokens example_form []))"
    by (simp_all add: account_a1_def account_a2_def example_env_def is_rejected_def)
  from fan_out_two_accounts_one_model [OF h, of "[]"] h show ?thesis
    by (auto simp add: vals)
qed

section \<open>The cron-expression evaluator on \<open>0 9 * * *\<close>\<close>

lemma cron_hours_loop_eq:
  "length results < count \<Longrightarrow>
   cron_hours_loop now d count minutes hours results
     = results @ take (count - length results)
         (future now (concat (map (\<lambda>h. map (at_day_time now d h) minutes) hours)))"
proof (induction hours arbitrary: results)
  case Nil
  then show ?case by simp
next
  case (Cons h hs)
  let ?k = "count - length results"
  let ?A = "future now (map (at_day_time now d h) minutes)"
  let ?B = "future now (concat (map (\<lambda>h. map (at_day_time now d h) minutes) hs))"
  let ?r = "results @ take ?k ?A"
  have r: "push_candidates (at_day_time now d h) now count minutes results = ?r"
    using Cons.prems by (rule push_candidates_eq)
  have step: "cron_hours_loop now d count minutes (h # hs) results
      = (if count \<le> length ?r then ?r else cron_hours_loop now d count minutes hs ?r)"
    by (simp only: cron_hours_loop.simps r Let_def)
  have fut: "future now (concat (map (\<lambda>h. map (at_day_time now d h) minutes) (h # hs))) = ?A @ ?B"
    by (simp add: future_append)
  show ?case
  proof (cases "count \<le> length ?r")
    case True
    then have "?k \<le> length ?A" using Cons.prems by simp
    then have "take ?k (?A @ ?B) = take ?k ?A" by simp
    with True show ?thesis unfolding step fut by (simp only: if_True)
  next
    case False
    then have lt: "length ?r < count" by simp
    then have short: "length ?A < ?k" by simp
    have "cron_hours_loop now d count minutes hs ?r = ?r @ take (count - length ?r) ?B"
      using lt by (rule Cons.IH)
    moreover have "take ?k (?A @ ?B) = take ?k ?A @ take (count - length ?r) ?B"
      using short by simp
    ultimately show ?thesis using False unfolding step fut by (simp only: if_False append_assoc)
  qed
qed

lemma crontab_runs_eq:
  assumes "split_ws (trim expr) = parts" and "5 \<le> length parts"
    and "parseField (parts ! 0) 59 = Some minutes" and "parseField (parts ! 1) 23 = Some hours"
  shows "calculateCrontabNextRuns expr now count
           = take count (concat (map (\<lambda>d. future now (concat (map (\<lambda>h. map (at_day_time now d h) minutes) hours)))
               [0..<7]))"
proof -
  have "for_dayOffset 7 count (\<lambda>dayOffset results. Some (cron_hours_loop now dayOffset count minutes hours results)) 0 []
      = Some ([] @ take (count - length ([] :: int list))
          (concat (map (\<lambda>d. future now (concat (map (\<lambda>h. map (at_day_time now d h) minutes) hours))) [0..<7])))"
    by (rule for_dayOffset_eq) (simp add: cron_hours_loop_eq)
  then show ?thesis using assms by (simp add: calculateCrontabNextRuns_def Let_def)
qed

lemma parts_0_9: "split_ws (trim ''0 9 * * *'') = [''0'', ''9'', ''*'', ''*'', ''*'']"
  by code_simp

lemma parse_0: "parseField ''0'' 59 = Some [Some 0]"
  by code_simp

lemma parse_9: "parseField ''9'' 23 = Some [Some 9]"
  by code_simp

lemma start_of_day_eq: "start_of_day t = (t div MS_PER_DAY) * MS_PER_DAY"
  unfolding start_of_day_def by (simp add: minus_mod_eq_div_mult)

lemma div_eq_bounds:
  fixes a c k :: int
  assumes "a div c = k" and "0 < c"
  shows "k * c \<le> a \<and> a < k * c + c"
proof -
  have "a = k * c + a mod c" using assms(1) by (metis div_mult_mod_eq)
  moreover have "0 \<le> a mod c" "a mod c < c" using assms(2) by simp_all
  ultimately show ?thesis by linarith
qed

lemma div_mod_offset:
  fixes q c x :: int
  assumes "0 \<le> x" and "x < c"
  shows "(q * c + x) div c = q" and "(q * c + x) mod c = x"
  using assms by simp_all

lemma nine_oclock_next_day:
  assumes "getDay now = 1" and "getHours now = 10"
  shows "now < start_of_day now + MS_PER_DAY + 9 * MS_PER_HOUR"
    and "\<not> now < start_of_day now + 9 * MS_PER_HOUR"
    and "getDay (start_of_day now + MS_PER_DAY + 9 * MS_PER_HOUR) = 2"
    and "getHours (start_of_day now + MS_PER_DAY + 9 * MS_PER_HOUR) = 9"
    and "getMinutes (start_of_day now + MS_PER_DAY + 9 * MS_PER_HOUR) = 0"
proof -
  define q where "q = now div MS_PER_DAY"
  define r where "r = now mod MS_PER_DAY"
  have now: "now = q * MS_PER_DAY + r"
    by (simp add: q_def r_def)
  from assms(2) have "r div MS_PER_HOUR = 10" by (simp add: getHours_def r_def)
  from div_eq_bounds [OF this] have r10: "36000000 \<le> r" "r < 39600000" by simp_all
  have s: "start_of_day now = q * MS_PER_DAY" by (simp add: start_of_day_eq q_def)
  show "now < start_of_day now + MS_PER_DAY + 9 * MS_PER_HOUR" unfolding s using now r10 by linarith
  show "\<not> now < start_of_day now + 9 * MS_PER_HOUR" unfolding s using now r10 by linarith
  have e: "q * MS_PER_DAY + MS_PER_DAY + 9 * MS_PER_HOUR = (q + 1) * MS_PER_DAY + 32400000"
    by (simp add: algebra_simps)
  have d: "(q * MS_PER_DAY + MS_PER_DAY + 9 * MS_PER_HOUR) div MS_PER_DAY = q + 1"
    unfolding e by (rule div_mod_offset) simp_all
  have m: "(q * MS_PER_DAY + MS_PER_DAY + 9 * MS_PER_HOUR) mod MS_PER_DAY = 32400000"
    unfolding e by (rule div_mod_offset) simp_all
  from assms(1) have "(q + 4) mod 7 = 1" by (simp add: getDay_def q_def)
  then have "(q + 1 + 4) mod 7 = 2" by presburger
  then show "getDay (start_of_day now + MS_PER_DAY + 9 * MS_PER_HOUR) = 2"
    unfolding s getDay_def d .
  show "getHours (start_of_day now + MS_PER_DAY + 9 * MS_PER_HOUR) = 9"
    unfolding s getHours_def m by simp
  have e2: "q * MS_PER_DAY + MS_PER_DAY + 9 * MS_PER_HOUR = (q * 24 + 33) * MS_PER_HOUR + 0"
    by (simp add: algebra_simps)
  have "(q * MS_PER_DAY + MS_PER_DAY + 9 * MS_PER_HOUR) mod MS_PER_HOUR = 0"
    unfolding e2 by (rule div_mod_offset) simp_all
  then show "getMinutes (start_of_day now + MS_PER_DAY + 9 * MS_PER_HOUR) = 0"
    unfolding s getMinutes_def by simp
qed

lemma daily_nine_runs:
  assumes "getDay now = 1" and "getHours now = 10"
  shows "\<exists>rest. calculateCrontabNextRuns ''0 9 * * *'' now count
     = take count ((start_of_day now + MS_PER_DAY + 9 * MS_PER_HOUR) # rest)"
proof -
  define f where "f = (\<lambda>d. future now (concat (map (\<lambda>h. map (at_day_time now d h) [Some 0]) [Some 9])))"
  have eq: "calculateCrontabNextRuns ''0 9 * * *'' now count = take count (concat (map f [0..<7]))"
    unfolding f_def by (rule crontab_runs_eq [OF parts_0_9]) (simp_all add: parse_0 parse_9)
  have days: "[0..<7] = 0 # 1 # [2..<7]" by (simp add: upt_rec)
  have f0: "f 0 = []"
    using nine_oclock_next_day(2) [OF assms] by (simp add: f_def at_day_time_def)
  have f1: "f 1 = [start_of_day now + MS_PER_DAY + 9 * MS_PER_HOUR]"
    using nine_oclock_next_day(1) [OF assms]
    by (simp add: f_def at_day_time_def start_of_day_shift [of now 1, simplified])
  have c: "concat (map f [0..<7]) = (start_of_day now + MS_PER_DAY + 9 * MS_PER_HOUR) # concat (map f [2..<7])"
    by (simp only: days list.map concat.simps f0 f1 append_Nil append_Cons)
  show ?thesis by (rule exI [of _ "concat (map f [2..<7])"]) (simp only: eq c)
qed

text \<open>
  Claim C5. On a Monday during the hour of 10:00, for every \<open>count\<close> of at least 1, the
  first instant that \<open>calculateCrontabNextRuns\<close> returns for \<open>0 9 * * *\<close> is 09:00 of
  the next day, a Tuesday. For an expression that splits into fewer than five fields the
  result is empty.
\<close>

theorem crontab_next_run_and_short_expression:
  "(getDay now = 1 \<and> getHours now = 10 \<and> 1 \<le> count \<longrightarrow>
      calculateCrontabNextRuns ''0 9 * * *'' now count \<noteq> []
      \<and> hd (calculateCrontabNextRuns ''0 9 * * *'' now count)
          = start_of_day now + MS_PER_DAY + 9 * MS_PER_HOUR
      \<and> getDay (hd (calculateCrontabNextRuns ''0 9 * * *'' now count)) = 2
      \<and> getHours (hd (calculateCrontabNextRuns ''0 9 * * *'' now count)) = 9
      \<and> getMinutes (hd (calculateCrontabNextRuns ''0 9 * * *'' now count)) = 0)
   \<and> (length (split_ws (trim expr)) < 5 \<longrightarrow> calculateCrontabNextRuns expr now count = [])"
proof (intro conjI impI)
  assume a: "getDay now = 1 \<and> getHours now = 10 \<and> 1 \<le> count"
  then have m: "getDay now = 1" "getHours now = 10" and c: "1 \<le> count" by simp_all
  from daily_nine_runs [OF m, of count] obtain rest where
    runs: "calculateCrontabNextRuns ''0 9 * * *'' now count
      = take count ((start_of_day now + MS_PER_DAY + 9 * MS_PER_HOUR) # rest)" by blast
  from runs c have hd_eq: "hd (calculateCrontabNextRuns ''0 9 * * *'' now count)
      = start_of_day now + MS_PER_DAY + 9 * MS_PER_HOUR"
    by (cases count) simp_all
  from runs c show "calculateCrontabNextRuns ''0 9 * * *'' now count \<noteq> []"
    by (cases count) simp_all
  show "hd (calculateCrontabNextRuns ''0 9 * * *'' now count)
      = start_of_day now + MS_PER_DAY + 9 * MS_PER_HOUR" by (rule hd_eq)
  show "getDay (hd (calculateCrontabNextRuns ''0 9 * * *'' now count)) = 2"
    unfolding hd_eq by (rule nine_oclock_next_day(3) [OF m])
  show "getHours (hd (calculateCrontabNextRuns ''0 9 * * *'' now count)) = 9"
    unfolding hd_eq by (rule nine_oclock_next_day(4) [OF m])
  show "getMinutes (hd (calculateCrontabNextRuns ''0 9 * * *'' now count)) = 0"
    unfolding hd_eq by (rule nine_oclock_next_day(5) [OF m])
next
  assume "length (split_ws (trim expr)) < 5"
  then show "calculateCrontabNextRuns expr now count = []"
    by (simp add: calculateCrontabNextRuns_def Let_def)
qed

lemma parts_0_9_short: "length (split_ws (trim ''0 9 * *'')) < 5"
  by code_simp

lemma monday_10_facts: "getDay monday_10 = 1" "getHours monday_10 = 10"
  "start_of_day monday_10 + MS_PER_DAY + 9 * MS_PER_HOUR = 1704186000000"
  by (simp_all add: getDay_def getHours_def start_of_day_def)

text \<open>The statement of C5 on Monday 1 January 2024 at 10:00, and for the four fields \<open>0 9 * *\<close>.\<close>

theorem crontab_next_run_and_short_expression_witness:
  "(getDay monday_10 = 1 \<and> getHours monday_10 = 10 \<and> (1::nat) \<le> 1
    \<and> calculateCrontabNextRuns ''0 9 * * *'' monday_10 1 \<noteq> []
    \<and> hd (calculateCrontabNextRuns ''0 9 * * *'' monday_10 1) = 1704186000000
    \<and> getDay (hd (calculateCrontabNextRuns ''0 9 * * *'' monday_10 1)) = 2
    \<and> getHours (hd (calculateCrontabNextRuns ''0 9 * * *'' monday_10 1)) = 9
    \<and> getMinutes (hd (calculateCrontabNextRuns ''0 9 * * *'' monday_10 1)) = 0)
   \<and> length (split_ws (trim ''0 9 * *'')) < 5
   \<and> calculateCrontabNextRuns ''0 9 * *'' monday_10 1 = []"
  using crontab_next_run_and_short_expression [of monday_10 1 "''0 9 * *''"]
    parts_0_9_short monday_10_facts
  by (simp add: getDay_def getHours_def getMinutes_def)

section \<open>The field grammar of the cron-expression evaluator\<close>








text \<open>A digit string of at most 15 digits is a number that a double holds exactly.\<close>

lemma foldl_digits_upper:
  "list_all is_digit ds \<Longrightarrow>
   foldl (\<lambda>acc c. acc * 10 + digit_val c) k ds < (k + 1) * 10 ^ length ds"
proof (induction ds arbitrary: k)
  case Nil
  then show ?case by simp
next
  case (Cons c cs)
  then have c: "digit_val c \<le> 9" and cs: "list_all is_digit cs"
    using digit_val_bounds [of c] by simp_all
  have "foldl (\<lambda>acc c. acc * 10 + digit_val c) (k * 10 + digit_val c) cs
      < (k * 10 + digit_val c + 1) * 10 ^ length cs"
    using cs by (rule Cons.IH)
  also have "\<dots> \<le> ((k + 1) * 10) * 10 ^ length cs"
    using c by (intro mult_right_mono) simp_all
  also have "\<dots> = (k + 1) * 10 ^ length (c # cs)" by simp
  finally show ?case by simp
qed

lemma digits_val_exact_range:
  assumes "list_all is_digit ds" and "length ds \<le> 15"
  shows "digits_val ds < 9007199254740992"
proof -
  from foldl_digits_upper [OF assms(1), of 0] have "digits_val ds < 10 ^ length ds"
    by (simp add: digits_val_def)
  also have "(10::int) ^ length ds \<le> 10 ^ 15"
    using assms(2) by (intro power_increasing) simp_all
  finally show ?thesis by simp
qed




section \<open>Interval schedules\<close>

declare hours_upto.simps [simp del]

lemma hours_upto_mem:
  "x \<in> set (hours_upto h endH interval) \<Longrightarrow> h \<le> x \<and> x \<le> endH \<and> (x - h) mod interval = 0"
proof (induction h endH interval rule: hours_upto.induct)
  case (1 h endH interval)
  show ?case
  proof (cases "0 < interval \<and> h \<le> endH")
    case False
    with "1.prems" show ?thesis by (simp add: hours_upto.simps [of h])
  next
    case True
    with "1.prems" have "x = h \<or> x \<in> set (hours_upto (h + interval) endH interval)"
      by (simp add: hours_upto.simps [of h])
    then show ?thesis
    proof
      assume "x = h"
      with True show ?thesis by simp
    next
      assume "x \<in> set (hours_upto (h + interval) endH interval)"
      from "1.IH" [OF True this] have ih: "h + interval \<le> x" "x \<le> endH" "(x - (h + interval)) mod interval = 0"
        by simp_all
      have "x - h = (x - (h + interval)) + interval" by simp
      then have "(x - h) mod interval = 0" using ih(3) by (metis mod_add_self2)
      with ih True show ?thesis by simp
    qed
  qed
qed

lemma interval_hours_loop_eq:
  "0 < interval \<Longrightarrow> length results < count \<Longrightarrow>
   interval_hours_loop now d count endH interval startM h results
     = Some (results @ take (count - length results)
         (future now (map (\<lambda>x. at_day_time now d (Some x) startM) (hours_upto h endH interval))))"
proof (induction h endH interval arbitrary: results rule: hours_upto.induct)
  case (1 h endH interval)
  show ?case
  proof (cases "h \<le> endH")
    case False
    then show ?thesis
      by (subst interval_hours_loop.simps) (simp add: hours_upto.simps [of h])
  next
    case True
    with "1.prems" have c: "0 < interval \<and> h \<le> endH" by simp
    let ?rest = "future now (map (\<lambda>x. at_day_time now d (Some x) startM) (hours_upto (h + interval) endH interval))"
    have up: "hours_upto h endH interval = h # hours_upto (h + interval) endH interval"
      using c by (simp add: hours_upto.simps [of h])
    have ih: "interval_hours_loop now d count endH interval startM (h + interval) r
        = Some (r @ take (count - length r) ?rest)" if "length r < count" for r
      using "1.IH" [OF c "1.prems"(1) that] .
    show ?thesis
    proof (cases "at_day_time now d (Some h) startM")
      case None
      then show ?thesis
        using True ih [OF "1.prems"(2)]
        by (subst interval_hours_loop.simps) (simp add: up)
    next
      case (Some date)
      show ?thesis
      proof (cases "now < date")
        case False
        then show ?thesis
          using True Some ih [OF "1.prems"(2)]
          by (subst interval_hours_loop.simps) (simp add: up)
      next
        case future: True
        show ?thesis
        proof (cases "count \<le> Suc (length results)")
          case stop: True
          then have "count - length results = Suc 0" using "1.prems"(2) by simp
          then show ?thesis
            using True Some future stop
            by (subst interval_hours_loop.simps) (simp add: up)
        next
          case go: False
          then have lt: "length (results @ [date]) < count" by simp
          have k: "count - length results = Suc (count - length (results @ [date]))"
            using go by simp
          show ?thesis
            using True Some future go ih [OF lt]
            by (subst interval_hours_loop.simps) (simp add: up k)
        qed
      qed
    qed
  qed
qed

lemma valid_time_split:
  assumes "valid_time s"
  shows "map Number_js (split_char CHR '':'' s) = [Some (digits_val (take 2 s)), Some (digits_val (drop 3 s))]"
    and "parseInt10 (first_piece CHR '':'' s) = Some (digits_val (take 2 s))"
proof -
  from assms have "length s = 5" by (simp add: valid_time_def)
  then obtain a b c e f where s: "s = [a, b, c, e, f]" by (rule length5E)
  with assms have dg: "is_digit a" "is_digit b" "c = CHR '':''" "is_digit e" "is_digit f"
    by (simp_all add: valid_time_def)
  have sp: "split_char CHR '':'' s = [[a, b], [e, f]]"
    using dg by (simp add: s is_digit_not_special)
  show "map Number_js (split_char CHR '':'' s) = [Some (digits_val (take 2 s)), Some (digits_val (drop 3 s))]"
    unfolding sp using dg by (simp add: Number_js_two_digits s)
  show "parseInt10 (first_piece CHR '':'' s) = Some (digits_val (take 2 s))"
    unfolding first_piece_def sp using dg
    by (simp add: parseInt10_def is_digit_not_special unsigned_digits_def s)
qed

lemma valid_time_parts:
  assumes "valid_time s"
  shows "0 \<le> digits_val (take 2 s)" "digits_val (take 2 s) \<le> 23"
    "0 \<le> digits_val (drop 3 s)" "digits_val (drop 3 s) \<le> 59"
proof -
  from assms have "length s = 5" by (simp add: valid_time_def)
  then obtain a b c e f where s: "s = [a, b, c, e, f]" by (rule length5E)
  with assms have dg: "is_digit a" "is_digit b" "is_digit e" "is_digit f"
    and hi: "digits_val [a, b] \<le> 23" "digits_val [e, f] \<le> 59"
    by (simp_all add: valid_time_def)
  from dg have lo: "0 \<le> digits_val [a, b]" "0 \<le> digits_val [e, f]"
    using digit_val_bounds by (simp_all add: digits_val_def)
  from hi lo show "0 \<le> digits_val (take 2 s)" "digits_val (take 2 s) \<le> 23"
    "0 \<le> digits_val (drop 3 s)" "digits_val (drop 3 s) \<le> 59"
    by (simp_all add: s)
qed

lemma valid_time_22: "valid_time ''22:00''" "valid_time ''07:00''"
  by (simp_all add: valid_time_def is_digit_def digits_val_def digit_val_def)

lemma end_hour_eq:
  assumes "valid_time (string_or x ''22:00'')"
  shows "(case x of Some (c # cs) \<Rightarrow> parseInt10 (first_piece CHR '':'' (c # cs)) | _ \<Rightarrow> Some 22)
     = Some (digits_val (take 2 (string_or x ''22:00'')))"
proof -
  have d: "digits_val (take 2 ''22:00'') = 22"
    by (simp add: digits_val_def digit_val_def)
  consider "x = None" | "x = Some []" | c cs where "x = Some (c # cs)"
  proof (cases x)
    case None
    then show ?thesis by (rule that(1))
  next
    case (Some t)
    then show ?thesis by (cases t) (simp_all add: that(2,3))
  qed
  then show ?thesis
  proof cases
    case 1
    then have "string_or x ''22:00'' = ''22:00''" by (simp add: string_or_def)
    with 1 d show ?thesis by (simp only: option.case)
  next
    case 2
    then have "string_or x ''22:00'' = ''22:00''" by (simp add: string_or_def)
    with 2 d show ?thesis by (simp only: option.case list.case)
  next
    case 3
    then have e: "string_or x ''22:00'' = c # cs" by (simp add: string_or_def)
    from assms have "parseInt10 (first_piece CHR '':'' (c # cs)) = Some (digits_val (take 2 (c # cs)))"
      unfolding e by (rule valid_time_split(2))
    with 3 e show ?thesis by (simp only: option.case list.case)
  qed
qed

lemma interval_runs_eq:
  assumes "repeatMode config = Interval"
    and "valid_time (string_or (intervalStartTime config) ''07:00'')"
    and "valid_time (string_or (intervalEndTime config) ''22:00'')"
    and "(case intervalHours config of Some k \<Rightarrow> if k = 0 then 4 else k | None \<Rightarrow> 4) = n"
    and "0 < n"
  shows "calculateNextRuns config now count
     = Some (take count (concat (map
         (\<lambda>d. future now (map (\<lambda>x. at_day_time now d (Some x)
                  (Some (digits_val (drop 3 (string_or (intervalStartTime config) ''07:00'')))))
                (hours_upto (digits_val (take 2 (string_or (intervalStartTime config) ''07:00'')))
                   (digits_val (take 2 (string_or (intervalEndTime config) ''22:00''))) n)))
         [0..<7])))"
proof -
  let ?s = "string_or (intervalStartTime config) ''07:00''"
  let ?e = "string_or (intervalEndTime config) ''22:00''"
  let ?startH = "digits_val (take 2 ?s)"
  let ?startM = "digits_val (drop 3 ?s)"
  let ?endH = "digits_val (take 2 ?e)"
  let ?cs = "\<lambda>d. future now (map (\<lambda>x. at_day_time now d (Some x) (Some ?startM)) (hours_upto ?startH ?endH n))"
  have endH: "(case intervalEndTime config of
                 Some (c # cs) \<Rightarrow> parseInt10 (first_piece CHR '':'' (c # cs))
               | _ \<Rightarrow> Some 22) = Some ?endH"
    using assms(3) by (rule end_hour_eq)
  have loop: "for_dayOffset 7 count
       (\<lambda>dayOffset results. interval_hours_loop now dayOffset count ?endH n (Some ?startM) ?startH results)
       0 [] = Some ([] @ take (count - length ([] :: int list)) (concat (map ?cs [0..<7])))"
    by (rule for_dayOffset_eq) (rule interval_hours_loop_eq [OF assms(5)])
  have sel: "calculateNextRuns config now count
      = map_option (take count) (for_dayOffset 7 count
       (\<lambda>dayOffset results. interval_hours_loop now dayOffset count ?endH n (Some ?startM) ?startH results)
       0 [])"
    unfolding calculateNextRuns_def
    using assms(1)
    by (simp add: Let_def valid_time_split(1) [OF assms(2)] endH assms(4) num_at_def)
  show ?thesis unfolding sel loop by (simp only: option.map append_Nil list.size minus_nat.diff_0 take_take min.idem)
qed

lemma hour_minute_of_candidate:
  assumes "0 \<le> x" "x \<le> 23" "0 \<le> m" "m \<le> 59"
  shows "getHours (start_of_day now + int d * MS_PER_DAY + x * MS_PER_HOUR + m * MS_PER_MINUTE) = x"
    and "getMinutes (start_of_day now + int d * MS_PER_DAY + x * MS_PER_HOUR + m * MS_PER_MINUTE) = m"
proof -
  define q where "q = now div MS_PER_DAY + int d"
  let ?t = "start_of_day now + int d * MS_PER_DAY + x * MS_PER_HOUR + m * MS_PER_MINUTE"
  have t1: "?t = q * MS_PER_DAY + (x * MS_PER_HOUR + m * MS_PER_MINUTE)"
    by (simp add: start_of_day_eq q_def algebra_simps)
  have t2: "?t = (q * 24 + x) * MS_PER_HOUR + m * MS_PER_MINUTE"
    by (simp add: start_of_day_eq q_def algebra_simps)
  have b1: "0 \<le> x * MS_PER_HOUR + m * MS_PER_MINUTE" "x * MS_PER_HOUR + m * MS_PER_MINUTE < MS_PER_DAY"
    using assms by simp_all
  have b2: "0 \<le> m * MS_PER_MINUTE" "m * MS_PER_MINUTE < MS_PER_HOUR"
    using assms by simp_all
  have b3: "(0::int) \<le> 0" "(0::int) < MS_PER_MINUTE" by simp_all
  have m1: "?t mod MS_PER_DAY = x * MS_PER_HOUR + m * MS_PER_MINUTE"
    unfolding t1 using b1 by (rule div_mod_offset(2))
  have d1: "(x * MS_PER_HOUR + m * MS_PER_MINUTE) div MS_PER_HOUR = x"
    using b2 by (rule div_mod_offset(1))
  show "getHours ?t = x" unfolding getHours_def m1 d1 ..
  have m2: "?t mod MS_PER_HOUR = m * MS_PER_MINUTE"
    unfolding t2 using b2 by (rule div_mod_offset(2))
  have "(m * MS_PER_MINUTE + 0) div MS_PER_MINUTE = m"
    using b3 by (rule div_mod_offset(1))
  then show "getMinutes ?t = m" unfolding getMinutes_def m2 by simp
qed

lemma at_day_time_Some:
  "at_day_time now d (Some x) (Some m)
     = Some (start_of_day now + int d * MS_PER_DAY + x * MS_PER_HOUR + m * MS_PER_MINUTE)"
  by (simp add: at_day_time_def start_of_day_shift)

lemma in_concat_map_ex: "r \<in> set (concat (map f ds)) \<Longrightarrow> \<exists>d. r \<in> set (f d)"
  by auto

lemma in_map_ex: "y \<in> set (map g xs) \<Longrightarrow> \<exists>x. x \<in> set xs \<and> y = g x"
  by auto

lemma interval_run_shape:
  assumes "r \<in> set (take count (concat (map
         (\<lambda>d. future now (map (\<lambda>x. at_day_time now d (Some x) (Some m)) (hours_upto sH eH n))) ds)))"
  shows "now < r \<and> (\<exists>d x. x \<in> set (hours_upto sH eH n)
           \<and> r = start_of_day now + int d * MS_PER_DAY + x * MS_PER_HOUR + m * MS_PER_MINUTE)"
proof -
  from assms have "r \<in> set (concat (map
         (\<lambda>d. future now (map (\<lambda>x. at_day_time now d (Some x) (Some m)) (hours_upto sH eH n))) ds))"
    by (rule in_set_takeD)
  from in_concat_map_ex [OF this]
  obtain d where "r \<in> set (future now (map (\<lambda>x. at_day_time now d (Some x) (Some m)) (hours_upto sH eH n)))"
    by blast
  from future_after [OF this] have after: "now < r"
    and "Some r \<in> set (map (\<lambda>x. at_day_time now d (Some x) (Some m)) (hours_upto sH eH n))"
    by blast+
  from in_map_ex [OF this(2)]
  obtain x where "x \<in> set (hours_upto sH eH n)" "Some r = at_day_time now d (Some x) (Some m)"
    by blast
  then have "x \<in> set (hours_upto sH eH n)"
    "r = start_of_day now + int d * MS_PER_DAY + x * MS_PER_HOUR + m * MS_PER_MINUTE"
    by (simp_all only: at_day_time_Some option.inject)
  with after show ?thesis by blast
qed

lemma hours_7_22_4: "hours_upto 7 22 4 = [7, 11, 15, 19]"
  by (simp add: hours_upto.simps)

lemma hour_of_0700: "hour_of ''07:00'' = 7" "minute_of ''07:00'' = 0" "hour_of ''22:00'' = 22"
  by (simp_all add: hour_of_def minute_of_def digits_val_def digit_val_def)

lemma six_oclock:
  assumes "getHours now = 6"
  shows "now < start_of_day now + 7 * MS_PER_HOUR"
proof -
  from assms have "(now mod MS_PER_DAY) div MS_PER_HOUR = 6" by (simp add: getHours_def)
  from div_eq_bounds [OF this] have "now mod MS_PER_DAY < 25200000" by simp
  then show ?thesis unfolding start_of_day_def by linarith
qed

lemma first_day_block:
  assumes "getHours now = 6"
  shows "future now (map (\<lambda>x. at_day_time now 0 (Some x) (Some 0)) [7, 11, 15, 19])
     = [start_of_day now + 7 * MS_PER_HOUR, start_of_day now + 11 * MS_PER_HOUR,
        start_of_day now + 15 * MS_PER_HOUR, start_of_day now + 19 * MS_PER_HOUR]"
  using six_oclock [OF assms] by (simp add: at_day_time_Some)

text \<open>
  Claim C8. For an interval schedule with valid start and end times and a positive step,
  \<open>calculateNextRuns\<close> returns, and every instant returned is strictly after \<open>now\<close>,
  has an hour between the start hour and the end hour inclusive, has the minute of the
  start time, and has an hour that is the start hour plus a multiple of the step. With
  the step 4 and the window 07:00 to 22:00, evaluated during the hour of 06:00 with at
  least two results asked for, the first instant is 07:00 of that day, the second is
  11:00 of that day, and no instant has an hour above 22.
\<close>

theorem interval_candidates_within_window:
  assumes "repeatMode config = Interval"
    and "valid_time (interval_start config)" and "valid_time (interval_end config)"
    and "0 < interval_step config"
  shows "\<exists>runs. calculateNextRuns config now count = Some runs
     \<and> length runs \<le> count
     \<and> (\<forall>r\<in>set runs.
           now < r
           \<and> hour_of (interval_start config) \<le> getHours r
           \<and> getHours r \<le> hour_of (interval_end config)
           \<and> getMinutes r = minute_of (interval_start config)
           \<and> (getHours r - hour_of (interval_start config)) mod interval_step config = 0)
     \<and> (interval_start config = ''07:00'' \<and> interval_end config = ''22:00''
          \<and> interval_step config = 4 \<and> getHours now = 6 \<and> 2 \<le> count \<longrightarrow>
            runs ! 0 = start_of_day now + 7 * MS_PER_HOUR
            \<and> runs ! 1 = start_of_day now + 11 * MS_PER_HOUR
            \<and> (\<forall>r\<in>set runs. getHours r \<le> 22))"
proof -
  let ?sH = "hour_of (interval_start config)"
  let ?sM = "minute_of (interval_start config)"
  let ?eH = "hour_of (interval_end config)"
  let ?n = "interval_step config"
  define block where "block = (\<lambda>d. future now (map (\<lambda>x. at_day_time now d (Some x) (Some ?sM)) (hours_upto ?sH ?eH ?n)))"
  define runs where "runs = take count (concat (map block [0..<7]))"
  have eq: "calculateNextRuns config now count = Some runs"
    unfolding runs_def block_def hour_of_def minute_of_def interval_start_def interval_end_def interval_step_def
    by (rule interval_runs_eq [OF assms(1) assms(2) [unfolded interval_start_def]
          assms(3) [unfolded interval_end_def] refl assms(4) [unfolded interval_step_def]])
  have len: "length runs \<le> count" unfolding runs_def by (rule length_take_le)
  have sb: "0 \<le> ?sH" "?sH \<le> 23" "0 \<le> ?sM" "?sM \<le> 59"
    using valid_time_parts [OF assms(2)] by (simp_all add: hour_of_def minute_of_def)
  have eb: "0 \<le> ?eH" "?eH \<le> 23"
    using valid_time_parts [OF assms(3)] by (simp_all add: hour_of_def)
  have each: "now < r \<and> ?sH \<le> getHours r \<and> getHours r \<le> ?eH \<and> getMinutes r = ?sM
      \<and> (getHours r - ?sH) mod ?n = 0" if "r \<in> set runs" for r
  proof -
    from that have "r \<in> set (take count (concat (map
         (\<lambda>d. future now (map (\<lambda>x. at_day_time now d (Some x) (Some ?sM)) (hours_upto ?sH ?eH ?n))) [0..<7])))"
      unfolding runs_def block_def .
    from interval_run_shape [OF this] obtain d x where
      after: "now < r" and x: "x \<in> set (hours_upto ?sH ?eH ?n)"
      and r: "r = start_of_day now + int d * MS_PER_DAY + x * MS_PER_HOUR + ?sM * MS_PER_MINUTE"
      by blast
    from hours_upto_mem [OF x] have xs: "?sH \<le> x" "x \<le> ?eH" "(x - ?sH) mod ?n = 0" by blast+
    from xs sb eb have xb: "0 \<le> x" "x \<le> 23" by linarith+
    have h: "getHours r = x" unfolding r using xb sb(3,4) by (rule hour_minute_of_candidate(1))
    have m: "getMinutes r = ?sM" unfolding r using xb sb(3,4) by (rule hour_minute_of_candidate(2))
    from after xs show ?thesis unfolding h m by blast
  qed
  have concrete: "runs ! 0 = start_of_day now + 7 * MS_PER_HOUR
      \<and> runs ! 1 = start_of_day now + 11 * MS_PER_HOUR
      \<and> (\<forall>r\<in>set runs. getHours r \<le> 22)"
    if c: "interval_start config = ''07:00'' \<and> interval_end config = ''22:00''
          \<and> interval_step config = 4 \<and> getHours now = 6 \<and> 2 \<le> count"
  proof -
    from c have v: "?sH = 7" "?sM = 0" "?eH = 22" "?n = 4" and six: "getHours now = 6" and two: "2 \<le> count"
      by (simp_all add: hour_of_0700)
    have b0: "block 0 = [start_of_day now + 7 * MS_PER_HOUR, start_of_day now + 11 * MS_PER_HOUR,
        start_of_day now + 15 * MS_PER_HOUR, start_of_day now + 19 * MS_PER_HOUR]"
      unfolding block_def v hours_7_22_4 using six by (rule first_day_block)
    have days: "[0..<7] = 0 # [1..<7]" by (simp add: upt_rec)
    have cc: "concat (map block [0..<7]) = (start_of_day now + 7 * MS_PER_HOUR)
        # (start_of_day now + 11 * MS_PER_HOUR)
        # ([start_of_day now + 15 * MS_PER_HOUR, start_of_day now + 19 * MS_PER_HOUR] @ concat (map block [1..<7]))"
      by (simp only: days list.map concat.simps b0 append_Cons append_Nil)
    from two obtain k where k: "count = Suc (Suc k)"
      by (metis Suc_le_D numeral_2_eq_2 Suc_le_mono)
    have "runs ! 0 = start_of_day now + 7 * MS_PER_HOUR" "runs ! 1 = start_of_day now + 11 * MS_PER_HOUR"
      unfolding runs_def cc k by simp_all
    moreover have "\<forall>r\<in>set runs. getHours r \<le> 22"
      using each v(3) by auto
    ultimately show ?thesis by blast
  qed
  from eq len each concrete show ?thesis by blast
qed

lemma interval_example_facts:
  "repeatMode interval_example = Interval" "valid_time (interval_start interval_example)"
  "valid_time (interval_end interval_example)" "0 < interval_step interval_example"
  "interval_start interval_example = ''07:00''" "interval_end interval_example = ''22:00''"
  "interval_step interval_example = 4"
  by (simp_all add: interval_example_def interval_start_def interval_end_def interval_step_def
      string_or_def valid_time_22)

lemma monday_06_facts: "getHours monday_06 = 6"
  "start_of_day monday_06 + 7 * MS_PER_HOUR = 1704092400000"
  "start_of_day monday_06 + 11 * MS_PER_HOUR = 1704106800000"
  by (simp_all add: getHours_def start_of_day_def)

text \<open>The statement of C8 for that schedule on Monday 1 January 2024 at 06:00, with two
  results asked for.\<close>

theorem interval_candidates_within_window_witness:
  "(repeatMode interval_example = Interval \<and> valid_time (interval_start interval_example)
    \<and> valid_time (interval_end interval_example) \<and> 0 < interval_step interval_example
    \<and> interval_start interval_example = ''07:00'' \<and> interval_end interval_example = ''22:00''
    \<and> interval_step interval_example = 4 \<and> getHours monday_06 = 6 \<and> (2::nat) \<le> 2)
   \<and> (\<exists>runs. calculateNextRuns interval_example monday_06 2 = Some runs
        \<and> length runs \<le> 2
        \<and> runs ! 0 = 1704092400000
        \<and> runs ! 1 = 1704106800000
        \<and> (\<forall>r\<in>set runs. getHours r \<le> 22))"
proof -
  have two: "(2::nat) \<le> 2" by simp
  from interval_candidates_within_window [OF interval_example_facts(1-4), of monday_06 2]
  obtain runs where runs: "calculateNextRuns interval_example monday_06 2 = Some runs"
    "length runs \<le> 2"
    "interval_start interval_example = ''07:00'' \<and> interval_end interval_example = ''22:00''
       \<and> interval_step interval_example = 4 \<and> getHours monday_06 = 6 \<and> (2::nat) \<le> 2 \<longrightarrow>
         runs ! 0 = start_of_day monday_06 + 7 * MS_PER_HOUR
         \<and> runs ! 1 = start_of_day monday_06 + 11 * MS_PER_HOUR
         \<and> (\<forall>r\<in>set runs. getHours r \<le> 22)"
    by blast
  from runs(3) interval_example_facts(5-7) monday_06_facts(1) two
  have "runs ! 0 = start_of_day monday_06 + 7 * MS_PER_HOUR"
    "runs ! 1 = start_of_day monday_06 + 11 * MS_PER_HOUR"
    "\<forall>r\<in>set runs. getHours r \<le> 22"
    by blast+
  then have "runs ! 0 = 1704092400000" "runs ! 1 = 1704106800000" "\<forall>r\<in>set runs. getHours r \<le> 22"
    by (simp_all only: monday_06_facts(2,3))
  with runs(1,2) interval_example_facts monday_06_facts(1) two show ?thesis by blast
qed

section \<open>Trigger modes\<close>

lemma form_schedule_flags:
  "crontab (form_schedule form) = (if formTriggerMode form = Crontab then Some (trim (formCrontab form)) else None)"
  "wakeOnReset (form_schedule form) = Some (formTriggerMode form = QuotaReset)"
  by (simp_all add: form_schedule_def normalizeSchedule_def)

lemma handleSaveTask_Inr:
  assumes "handleSaveTask form prev now fresh = Inr (task, tasks')"
  shows "schedule task = form_schedule form"
    and "formTriggerMode form = Crontab \<longrightarrow> trim (formCrontab form) \<noteq> []"
    and "task \<in> set tasks'"
proof -
  from assms have g: "\<not> (formTriggerMode form = Crontab \<and> trim (formCrontab form) = [])"
    by (auto simp add: handleSaveTask_def split: if_splits)
  then show "formTriggerMode form = Crontab \<longrightarrow> trim (formCrontab form) \<noteq> []" by blast
  from assms show "schedule task = form_schedule form"
    by (auto simp add: handleSaveTask_def Let_def split: if_splits)
  have r: "t \<in> set (if list_ex (\<lambda>x. task_id x = task_id t) prev
                    then map (\<lambda>x. if task_id x = task_id t then t else x) prev else t # prev)"
    for t :: WakeupTask
    by (auto simp add: list_ex_iff)
  from assms show "task \<in> set tasks'"
    using r [of task]
    by (auto simp add: handleSaveTask_def Let_def split: if_splits)
qed

text \<open>
  Claim C9, as the code has it. The trigger mode of a task is derived from two flags of
  its schedule: \<open>wakeOnReset = true\<close> gives \<open>QuotaReset\<close>, whatever the cron expression;
  otherwise a non-empty cron expression gives \<open>Crontab\<close>; otherwise the mode is
  \<open>Scheduled\<close>. A task that \<open>handleSaveTask\<close> saves is in the new task list, its
  derived mode is the mode chosen in the form, it has a cron expression, a non-empty one,
  exactly in crontab mode, it has \<open>wakeOnReset = true\<close> exactly in quota-reset mode, and
  it never has both.
\<close>

theorem trigger_mode_derived:
  "(wakeOnReset (schedule task) = Some True \<longrightarrow> getTriggerMode task = QuotaReset)
   \<and> (wakeOnReset (schedule task) \<noteq> Some True \<and> crontab (schedule task) = Some (c # cs) \<longrightarrow>
        getTriggerMode task = Crontab)
   \<and> (wakeOnReset (schedule task) \<noteq> Some True \<and> crontab (schedule task) \<in> {None, Some []} \<longrightarrow>
        getTriggerMode task = Scheduled)
   \<and> (handleSaveTask form prev now fresh = Inr (saved, tasks') \<longrightarrow>
        saved \<in> set tasks'
        \<and> getTriggerMode saved = formTriggerMode form
        \<and> (crontab (schedule saved) \<noteq> None \<longleftrightarrow> formTriggerMode form = Crontab)
        \<and> (crontab (schedule saved) \<noteq> None \<longrightarrow> crontab (schedule saved) \<noteq> Some [])
        \<and> (wakeOnReset (schedule saved) = Some True \<longleftrightarrow> formTriggerMode form = QuotaReset)
        \<and> \<not> (crontab (schedule saved) \<noteq> None \<and> wakeOnReset (schedule saved) = Some True))"
proof (intro conjI impI)
  assume s: "handleSaveTask form prev now fresh = Inr (saved, tasks')"
  note h = handleSaveTask_Inr [OF s]
  show "saved \<in> set tasks'" by (rule h(3))
  show "getTriggerMode saved = formTriggerMode form"
    using h(2) by (cases "formTriggerMode form") (simp_all add: getTriggerMode_def h(1) form_schedule_flags string_or_def split: list.splits)
  show "(crontab (schedule saved) \<noteq> None) = (formTriggerMode form = Crontab)"
    by (simp add: h(1) form_schedule_flags)
  show "crontab (schedule saved) \<noteq> Some []" if "crontab (schedule saved) \<noteq> None"
    using that h(2) by (simp add: h(1) form_schedule_flags split: if_splits)
  show "(wakeOnReset (schedule saved) = Some True) = (formTriggerMode form = QuotaReset)"
    by (simp add: h(1) form_schedule_flags)
  show "\<not> (crontab (schedule saved) \<noteq> None \<and> wakeOnReset (schedule saved) = Some True)"
    by (simp add: h(1) form_schedule_flags)
qed (simp_all add: getTriggerMode_def string_or_def, auto)

text \<open>
  The claim as stated lets a non-empty cron expression imply the mode \<open>Crontab\<close>. The
  stored task \<open>both_flags_task\<close> has a cron expression and \<open>wakeOnReset = true\<close>, and its
  mode is \<open>QuotaReset\<close>.
\<close>

theorem trigger_mode_quota_reset_over_crontab:
  "crontab (schedule both_flags_task) = Some ''0 9 * * *''
   \<and> wakeOnReset (schedule both_flags_task) = Some True
   \<and> getTriggerMode both_flags_task = QuotaReset"
  by (simp add: both_flags_task_def getTriggerMode_def)

lemma trim_examples: "trim ''Morning'' = ''Morning''" "trim ''0 9 * * *'' = ''0 9 * * *''"
  by code_simp+

lemma save_crontab_form:
  "\<exists>saved tasks'. handleSaveTask crontab_form [] monday_10 ''task-2'' = Inr (saved, tasks')"
  by (simp add: handleSaveTask_def crontab_form_def trim_examples Let_def)

text \<open>The statement of C9 for three stored tasks and for a form saved in crontab mode.\<close>

theorem trigger_mode_derived_witness:
  "wakeOnReset (schedule both_flags_task) = Some True
   \<and> getTriggerMode both_flags_task = QuotaReset
   \<and> getTriggerMode (both_flags_task\<lparr>schedule := daily_example\<lparr>crontab := Some ''0 9 * * *''\<rparr>\<rparr>) = Crontab
   \<and> getTriggerMode (both_flags_task\<lparr>schedule := daily_example\<rparr>) = Scheduled
   \<and> (\<exists>saved tasks'. handleSaveTask crontab_form [] monday_10 ''task-2'' = Inr (saved, tasks')
        \<and> saved \<in> set tasks'
        \<and> getTriggerMode saved = Crontab
        \<and> crontab (schedule saved) \<noteq> None
        \<and> wakeOnReset (schedule saved) \<noteq> Some True)"
proof -
  have a: "wakeOnReset (schedule both_flags_task) = Some True"
    by (simp add: both_flags_task_def)
  have b: "wakeOnReset (schedule (both_flags_task\<lparr>schedule := daily_example\<lparr>crontab := Some ''0 9 * * *''\<rparr>\<rparr>)) \<noteq> Some True"
    "crontab (schedule (both_flags_task\<lparr>schedule := daily_example\<lparr>crontab := Some ''0 9 * * *''\<rparr>\<rparr>))
       = Some (CHR ''0'' # '' 9 * * *'')"
    by (simp_all add: daily_example_def)
  have c: "wakeOnReset (schedule (both_flags_task\<lparr>schedule := daily_example\<rparr>)) \<noteq> Some True"
    "crontab (schedule (both_flags_task\<lparr>schedule := daily_example\<rparr>)) \<in> {None, Some []}"
    by (simp_all add: daily_example_def)
  have m: "formTriggerMode crontab_form = Crontab" by (simp add: crontab_form_def)
  from save_crontab_form obtain saved tasks' where
    s: "handleSaveTask crontab_form [] monday_10 ''task-2'' = Inr (saved, tasks')" by blast
  from trigger_mode_derived [of both_flags_task _ _ crontab_form "[]" monday_10 "''task-2''" saved tasks'] a s m
  have 1: "getTriggerMode both_flags_task = QuotaReset" "saved \<in> set tasks'"
    "getTriggerMode saved = Crontab" "crontab (schedule saved) \<noteq> None"
    "wakeOnReset (schedule saved) \<noteq> Some True"
    by simp_all
  from trigger_mode_derived [of "both_flags_task\<lparr>schedule := daily_example\<lparr>crontab := Some ''0 9 * * *''\<rparr>\<rparr>"
      "CHR ''0''" "'' 9 * * *''"] b
  have 2: "getTriggerMode (both_flags_task\<lparr>schedule := daily_example\<lparr>crontab := Some ''0 9 * * *''\<rparr>\<rparr>) = Crontab"
    by blast
  from trigger_mode_derived [of "both_flags_task\<lparr>schedule := daily_example\<rparr>"] c
  have 3: "getTriggerMode (both_flags_task\<lparr>schedule := daily_example\<rparr>) = Scheduled"
    by blast
  from a 1 2 3 s show ?thesis by blast
qed

section \<open>Migration of legacy storage keys\<close>

lemma persist_fold:
  "fold (\<lambda>legacyKey s. if legacyKey \<noteq> cacheKey then s(legacyKey := None) else s) ks st k
     = (if k \<in> set ks \<and> k \<noteq> cacheKey then None else st k)"
  by (induction ks arbitrary: st) auto

text \<open>
  Claim C10, as the code has it, for a current key and a legacy key that differ. A read
  that finds a value under the current key returns it and changes nothing. A read that
  finds none there and a value under the legacy key returns that value, stores it under
  the current key and removes the legacy key. A read that finds neither returns
  \<open>null\<close>. A write stores the value under the current key and removes the legacy
  key. So after a write the legacy key is gone, and a read never brings the two keys
  together: when they did not both hold a value before the read, they do not after it.
  The instance cache behaves in the same way, an empty string counting as no value:
  \<open>loadCachedInstances\<close> returns the current cache untouched, or migrates the legacy one,
  and \<open>persistInstancesCache\<close> writes the current key and removes every legacy key.
\<close>

theorem legacy_key_migration:
  assumes "key \<noteq> legacyKey"
  shows
    "(st key = Some v \<longrightarrow> readStorageWithLegacy key legacyKey st = (Some v, st))
     \<and> (st key = None \<and> st legacyKey = Some old \<longrightarrow>
          readStorageWithLegacy key legacyKey st = (Some old, (st(key \<mapsto> old))(legacyKey := None))
          \<and> snd (readStorageWithLegacy key legacyKey st) key = Some old
          \<and> snd (readStorageWithLegacy key legacyKey st) legacyKey = None)
     \<and> (st key = None \<and> st legacyKey = None \<longrightarrow> readStorageWithLegacy key legacyKey st = (None, st))
     \<and> writeStorageAndCleanupLegacy key legacyKey w st key = Some w
     \<and> writeStorageAndCleanupLegacy key legacyKey w st legacyKey = None
     \<and> (st key = None \<or> st legacyKey = None \<longrightarrow>
          snd (readStorageWithLegacy key legacyKey st) key = None
          \<or> snd (readStorageWithLegacy key legacyKey st) legacyKey = None)
     \<and> (parseCachedInstances parse (st key) = Some current \<longrightarrow>
          loadCachedInstances parse key [legacyKey] st = (current, st))
     \<and> (parseCachedInstances parse (st key) = None \<and> st legacyKey = Some old
          \<and> parseCachedInstances parse (Some old) = Some parsed \<longrightarrow>
          loadCachedInstances parse key [legacyKey] st = (parsed, (st(key \<mapsto> old))(legacyKey := None)))
     \<and> persistInstancesCache stringify key legacyKeys instances st key = Some (stringify instances)
     \<and> (\<forall>k\<in>set legacyKeys. k \<noteq> key \<longrightarrow>
          persistInstancesCache stringify key legacyKeys instances st k = None)"
  using assms
  by (auto simp add: readStorageWithLegacy_def writeStorageAndCleanupLegacy_def Let_def
      loadCachedInstances_def persistInstancesCache_def persist_fold split: option.splits)

text \<open>
  The claim as stated has the two keys apart after any read. In \<open>both_keys_storage\<close>
  both hold a value; the read returns the current one and leaves the legacy one where
  it is.
\<close>

theorem read_leaves_legacy_key_beside_current:
  "fst (readStorageWithLegacy TASKS_STORAGE_KEY LEGACY_TASKS_STORAGE_KEY both_keys_storage) = Some ''[1]''
   \<and> snd (readStorageWithLegacy TASKS_STORAGE_KEY LEGACY_TASKS_STORAGE_KEY both_keys_storage)
        TASKS_STORAGE_KEY = Some ''[1]''
   \<and> snd (readStorageWithLegacy TASKS_STORAGE_KEY LEGACY_TASKS_STORAGE_KEY both_keys_storage)
        LEGACY_TASKS_STORAGE_KEY = Some ''[0]''"
  by (simp add: readStorageWithLegacy_def both_keys_storage_def)

text \<open>The statement of C10 for the keys of the task list.\<close>

theorem legacy_key_migration_witness:
  "TASKS_STORAGE_KEY \<noteq> LEGACY_TASKS_STORAGE_KEY
   \<and> both_keys_storage TASKS_STORAGE_KEY = Some ''[1]''
   \<and> readStorageWithLegacy TASKS_STORAGE_KEY LEGACY_TASKS_STORAGE_KEY both_keys_storage
       = (Some ''[1]'', both_keys_storage)
   \<and> legacy_only_storage TASKS_STORAGE_KEY = None
   \<and> legacy_only_storage LEGACY_TASKS_STORAGE_KEY = Some ''[0]''
   \<and> snd (readStorageWithLegacy TASKS_STORAGE_KEY LEGACY_TASKS_STORAGE_KEY legacy_only_storage)
        TASKS_STORAGE_KEY = Some ''[0]''
   \<and> snd (readStorageWithLegacy TASKS_STORAGE_KEY LEGACY_TASKS_STORAGE_KEY legacy_only_storage)
        LEGACY_TASKS_STORAGE_KEY = None
   \<and> writeStorageAndCleanupLegacy TASKS_STORAGE_KEY LEGACY_TASKS_STORAGE_KEY ''[2]'' both_keys_storage
        TASKS_STORAGE_KEY = Some ''[2]''
   \<and> writeStorageAndCleanupLegacy TASKS_STORAGE_KEY LEGACY_TASKS_STORAGE_KEY ''[2]'' both_keys_storage
        LEGACY_TASKS_STORAGE_KEY = None"
proof -
  have k: "TASKS_STORAGE_KEY \<noteq> LEGACY_TASKS_STORAGE_KEY" by simp
  have b: "both_keys_storage TASKS_STORAGE_KEY = Some ''[1]''"
    by (simp add: both_keys_storage_def)
  have l: "legacy_only_storage TASKS_STORAGE_KEY = None"
    "legacy_only_storage LEGACY_TASKS_STORAGE_KEY = Some ''[0]''"
    by (simp_all add: legacy_only_storage_def)
  from legacy_key_migration [OF k, of both_keys_storage "''[1]''" _ "''[2]''"] b
  have 1: "readStorageWithLegacy TASKS_STORAGE_KEY LEGACY_TASKS_STORAGE_KEY both_keys_storage
       = (Some ''[1]'', both_keys_storage)"
    "writeStorageAndCleanupLegacy TASKS_STORAGE_KEY LEGACY_TASKS_STORAGE_KEY ''[2]'' both_keys_storage
        TASKS_STORAGE_KEY = Some ''[2]''"
    "writeStorageAndCleanupLegacy TASKS_STORAGE_KEY LEGACY_TASKS_STORAGE_KEY ''[2]'' both_keys_storage
        LEGACY_TASKS_STORAGE_KEY = None"
    by blast+
  from legacy_key_migration [OF k, of legacy_only_storage _ "''[0]''"] l
  have 2: "snd (readStorageWithLegacy TASKS_STORAGE_KEY LEGACY_TASKS_STORAGE_KEY legacy_only_storage)
        TASKS_STORAGE_KEY = Some ''[0]''"
    "snd (readStorageWithLegacy TASKS_STORAGE_KEY LEGACY_TASKS_STORAGE_KEY legacy_only_storage)
        LEGACY_TASKS_STORAGE_KEY = None"
    by blast+
  from k b l 1 2 show ?thesis by blast
qed

section \<open>Selection repair keeps what is valid\<close>

lemma length_join_bar:
  "xs \<noteq> [] \<Longrightarrow> Suc (length (join_bar xs)) = sum_list (map length xs) + length xs"
  by (induction xs rule: join_bar.induct) simp_all

lemma sum_list_length_filter_le:
  "sum_list (map length (filter P xs)) \<le> sum_list (map length xs)"
  by (induction xs) simp_all

lemma join_bar_filter_eq:
  assumes "filter P xs \<noteq> []" and "join_bar (filter P xs) = join_bar xs"
  shows "filter P xs = xs"
proof (rule ccontr)
  assume ne: "filter P xs \<noteq> xs"
  then obtain x where "x \<in> set xs" "\<not> P x" by (auto simp add: filter_id_conv)
  then have "length (filter P xs) < length xs" by (rule length_filter_less)
  with sum_list_length_filter_le [of P xs]
  have "sum_list (map length (filter P xs)) + length (filter P xs) < sum_list (map length xs) + length xs"
    by linarith
  moreover from assms(1) have "xs \<noteq> []" by auto
  ultimately have "Suc (length (join_bar (filter P xs))) < Suc (length (join_bar xs))"
    using length_join_bar [OF assms(1)] length_join_bar [of xs] by linarith
  with assms(2) show False by simp
qed

lemma repair_selection_empty: "repair_selection [] selected = (selected, False)"
  by (simp add: repair_selection_def)

lemma repair_selection_kept:
  assumes "filter (\<lambda>x. x \<in> set (first # rest)) selected \<noteq> []"
  shows "fst (repair_selection (first # rest) selected) = filter (\<lambda>x. x \<in> set (first # rest)) selected"
  using assms join_bar_filter_eq [of "\<lambda>x. x \<in> set (first # rest)" selected]
  by (auto simp add: repair_selection_def Let_def)

lemma repair_selection_first:
  assumes "filter (\<lambda>x. x \<in> set (first # rest)) selected = []" and "join_bar selected \<noteq> first"
  shows "repair_selection (first # rest) selected = ([first], True)"
  using assms by (auto simp add: repair_selection_def Let_def)

lemma repair_selection_valid:
  assumes "set selected \<subseteq> set available" and "selected = [] \<longrightarrow> available = []"
  shows "repair_selection available selected = (selected, False)"
proof (cases available)
  case Nil
  then show ?thesis by (simp add: repair_selection_def)
next
  case (Cons first rest)
  from assms(1) have "filter (\<lambda>x. x \<in> set available) selected = selected"
    by (auto simp add: filter_id_conv)
  moreover from assms(2) Cons have "selected \<noteq> []" by auto
  ultimately show ?thesis using Cons by (simp add: repair_selection_def Let_def)
qed

lemma repair_selection_keeps_valid:
  assumes "x \<in> set selected" and "x \<in> set available"
  shows "x \<in> set (fst (repair_selection available selected))"
proof (cases available)
  case Nil
  with assms show ?thesis by simp
next
  case (Cons first rest)
  define kept where "kept = filter (\<lambda>y. y \<in> set (first # rest)) selected"
  from assms have x: "x \<in> set kept" unfolding kept_def Cons by simp
  then have "kept \<noteq> []" by (cases kept) simp_all
  then have "fst (repair_selection (first # rest) selected) = kept"
    unfolding kept_def by (rule repair_selection_kept)
  with x show ?thesis unfolding Cons by simp
qed

lemma repair_selection_unchanged:
  "\<not> snd (repair_selection available selected) \<Longrightarrow> fst (repair_selection available selected) = selected"
  by (cases available) (auto simp add: repair_selection_def Let_def split: if_splits)

lemma normalized_selection:
  "selectedAccounts (normalizeSchedule (with_DEFAULT_SCHEDULE s)) = selectedAccounts s"
  "selectedModels (normalizeSchedule (with_DEFAULT_SCHEDULE s)) = selectedModels s"
  by (simp_all add: normalizeSchedule_def with_DEFAULT_SCHEDULE_def)

lemma repair_task_selection:
  "selectedAccounts (schedule (fst (repair_task accountEmails modelIds task)))
     = fst (repair_selection accountEmails (selectedAccounts (schedule task)))"
  "selectedModels (schedule (fst (repair_task accountEmails modelIds task)))
     = fst (repair_selection modelIds (selectedModels (schedule task)))"
  "snd (repair_task accountEmails modelIds task)
     \<longleftrightarrow> snd (repair_selection accountEmails (selectedAccounts (schedule task)))
       \<or> snd (repair_selection modelIds (selectedModels (schedule task)))"
  by (simp_all add: repair_task_def Let_def normalized_selection split: prod.splits)

lemma repairSelections_length: "length (repairSelections tasks accountEmails modelIds) = length tasks"
  by (simp add: repairSelections_def Let_def)

lemma repairSelections_nth:
  assumes "i < length tasks"
  shows "selectedAccounts (schedule (repairSelections tasks accountEmails modelIds ! i))
           = fst (repair_selection accountEmails (selectedAccounts (schedule (tasks ! i))))"
    and "selectedModels (schedule (repairSelections tasks accountEmails modelIds ! i))
           = fst (repair_selection modelIds (selectedModels (schedule (tasks ! i))))"
proof -
  let ?changed = "list_ex snd (map (repair_task accountEmails modelIds) tasks)"
  have both: "selectedAccounts (schedule (repairSelections tasks accountEmails modelIds ! i))
           = fst (repair_selection accountEmails (selectedAccounts (schedule (tasks ! i))))
      \<and> selectedModels (schedule (repairSelections tasks accountEmails modelIds ! i))
           = fst (repair_selection modelIds (selectedModels (schedule (tasks ! i))))"
  proof (cases "accountEmails = [] \<and> modelIds = []")
    case True
    then show ?thesis by (simp add: repairSelections_def repair_selection_empty)
  next
    case avail: False
    from assms have ne: "tasks \<noteq> []" by auto
    show ?thesis
    proof (cases ?changed)
      case True
      with avail ne have "repairSelections tasks accountEmails modelIds
          = map fst (map (repair_task accountEmails modelIds) tasks)"
        by (auto simp add: repairSelections_def Let_def)
      with assms show ?thesis by (simp add: repair_task_selection)
    next
      case False
      with avail ne have same: "repairSelections tasks accountEmails modelIds = tasks"
        by (auto simp add: repairSelections_def Let_def)
      from False assms have "\<not> snd (repair_task accountEmails modelIds (tasks ! i))"
        by (auto simp add: list_ex_iff)
      then have "\<not> snd (repair_selection accountEmails (selectedAccounts (schedule (tasks ! i))))"
        "\<not> snd (repair_selection modelIds (selectedModels (schedule (tasks ! i))))"
        by (simp_all add: repair_task_selection(3))
      then show ?thesis unfolding same by (simp add: repair_selection_unchanged)
    qed
  qed
  from both show "selectedAccounts (schedule (repairSelections tasks accountEmails modelIds ! i))
           = fst (repair_selection accountEmails (selectedAccounts (schedule (tasks ! i))))" ..
  from both show "selectedModels (schedule (repairSelections tasks accountEmails modelIds ! i))
           = fst (repair_selection modelIds (selectedModels (schedule (tasks ! i))))" ..
qed

lemma repairSelections_no_op:
  assumes "\<forall>t\<in>set tasks.
      set (selectedAccounts (schedule t)) \<subseteq> set accountEmails
      \<and> (selectedAccounts (schedule t) = [] \<longrightarrow> accountEmails = [])
      \<and> set (selectedModels (schedule t)) \<subseteq> set modelIds
      \<and> (selectedModels (schedule t) = [] \<longrightarrow> modelIds = [])"
  shows "repairSelections tasks accountEmails modelIds = tasks"
proof -
  have "\<not> snd (repair_task accountEmails modelIds t)" if "t \<in> set tasks" for t
    using assms that by (simp add: repair_task_selection(3) repair_selection_valid)
  then have "\<not> list_ex snd (map (repair_task accountEmails modelIds) tasks)"
    by (auto simp add: list_ex_iff)
  then show ?thesis by (simp add: repairSelections_def Let_def)
qed

lemma repair_selection_first_hd:
  assumes "available \<noteq> []" and "filter (\<lambda>x. x \<in> set available) selected = []"
    and "join_bar selected \<noteq> hd available"
  shows "fst (repair_selection available selected) = [hd available]"
proof -
  from assms(1) obtain first rest where a: "available = first # rest" by (cases available) auto
  from repair_selection_first [of first rest selected] assms(2,3) show ?thesis
    unfolding a by simp
qed

lemma repair_selection_kept_any:
  assumes "available \<noteq> []" and "filter (\<lambda>x. x \<in> set available) selected \<noteq> []"
  shows "fst (repair_selection available selected) = filter (\<lambda>x. x \<in> set available) selected"
proof -
  from assms(1) obtain first rest where a: "available = first # rest" by (cases available) auto
  from assms(2) show ?thesis unfolding a by (rule repair_selection_kept)
qed

text \<open>
  Claim C7, as the code has it. Selection repair leaves the task list as it is when
  every task's selected accounts and selected models are among the available ones and
  are not empty (unless nothing is available). It keeps the number of tasks. For every
  task and for accounts and models alike, with at least one item available: a selection
  of which no entry is available, and whose \<open>|\<close>-joined text is not the first available
  item, is replaced by the list of that first item alone; a selection with available
  entries becomes exactly the list of its available entries, in their order. So every
  available entry of a selection is kept.
\<close>

theorem repairSelections_valid_selections:
  "((\<forall>t\<in>set tasks.
        set (selectedAccounts (schedule t)) \<subseteq> set accountEmails
        \<and> (selectedAccounts (schedule t) = [] \<longrightarrow> accountEmails = [])
        \<and> set (selectedModels (schedule t)) \<subseteq> set modelIds
        \<and> (selectedModels (schedule t) = [] \<longrightarrow> modelIds = []))
      \<longrightarrow> repairSelections tasks accountEmails modelIds = tasks)
   \<and> length (repairSelections tasks accountEmails modelIds) = length tasks
   \<and> (\<forall>i<length tasks.
        (accountEmails \<noteq> []
           \<and> filter (\<lambda>x. x \<in> set accountEmails) (selectedAccounts (schedule (tasks ! i))) = []
           \<and> join_bar (selectedAccounts (schedule (tasks ! i))) \<noteq> hd accountEmails
         \<longrightarrow> selectedAccounts (schedule (repairSelections tasks accountEmails modelIds ! i))
               = [hd accountEmails])
        \<and> (modelIds \<noteq> []
           \<and> filter (\<lambda>x. x \<in> set modelIds) (selectedModels (schedule (tasks ! i))) = []
           \<and> join_bar (selectedModels (schedule (tasks ! i))) \<noteq> hd modelIds
         \<longrightarrow> selectedModels (schedule (repairSelections tasks accountEmails modelIds ! i))
               = [hd modelIds])
        \<and> (accountEmails \<noteq> []
           \<and> filter (\<lambda>x. x \<in> set accountEmails) (selectedAccounts (schedule (tasks ! i))) \<noteq> []
         \<longrightarrow> selectedAccounts (schedule (repairSelections tasks accountEmails modelIds ! i))
               = filter (\<lambda>x. x \<in> set accountEmails) (selectedAccounts (schedule (tasks ! i))))
        \<and> (modelIds \<noteq> []
           \<and> filter (\<lambda>x. x \<in> set modelIds) (selectedModels (schedule (tasks ! i))) \<noteq> []
         \<longrightarrow> selectedModels (schedule (repairSelections tasks accountEmails modelIds ! i))
               = filter (\<lambda>x. x \<in> set modelIds) (selectedModels (schedule (tasks ! i))))
        \<and> (\<forall>x\<in>set (selectedAccounts (schedule (tasks ! i))) \<inter> set accountEmails.
              x \<in> set (selectedAccounts (schedule (repairSelections tasks accountEmails modelIds ! i))))
        \<and> (\<forall>x\<in>set (selectedModels (schedule (tasks ! i))) \<inter> set modelIds.
              x \<in> set (selectedModels (schedule (repairSelections tasks accountEmails modelIds ! i)))))"
proof (intro conjI allI impI ballI)
  assume "\<forall>t\<in>set tasks.
        set (selectedAccounts (schedule t)) \<subseteq> set accountEmails
        \<and> (selectedAccounts (schedule t) = [] \<longrightarrow> accountEmails = [])
        \<and> set (selectedModels (schedule t)) \<subseteq> set modelIds
        \<and> (selectedModels (schedule t) = [] \<longrightarrow> modelIds = [])"
  then show "repairSelections tasks accountEmails modelIds = tasks" by (rule repairSelections_no_op)
next
  show "length (repairSelections tasks accountEmails modelIds) = length tasks"
    by (rule repairSelections_length)
next
  fix i assume i: "i < length tasks"
    and h: "accountEmails \<noteq> []
           \<and> filter (\<lambda>x. x \<in> set accountEmails) (selectedAccounts (schedule (tasks ! i))) = []
           \<and> join_bar (selectedAccounts (schedule (tasks ! i))) \<noteq> hd accountEmails"
  then show "selectedAccounts (schedule (repairSelections tasks accountEmails modelIds ! i)) = [hd accountEmails]"
    unfolding repairSelections_nth(1) [OF i] by (intro repair_selection_first_hd) blast+
next
  fix i assume i: "i < length tasks"
    and h: "modelIds \<noteq> []
           \<and> filter (\<lambda>x. x \<in> set modelIds) (selectedModels (schedule (tasks ! i))) = []
           \<and> join_bar (selectedModels (schedule (tasks ! i))) \<noteq> hd modelIds"
  then show "selectedModels (schedule (repairSelections tasks accountEmails modelIds ! i)) = [hd modelIds]"
    unfolding repairSelections_nth(2) [OF i] by (intro repair_selection_first_hd) blast+
next
  fix i assume i: "i < length tasks"
    and h: "accountEmails \<noteq> []
           \<and> filter (\<lambda>x. x \<in> set accountEmails) (selectedAccounts (schedule (tasks ! i))) \<noteq> []"
  then show "selectedAccounts (schedule (repairSelections tasks accountEmails modelIds ! i))
      = filter (\<lambda>x. x \<in> set accountEmails) (selectedAccounts (schedule (tasks ! i)))"
    unfolding repairSelections_nth(1) [OF i] by (intro repair_selection_kept_any) blast+
next
  fix i assume i: "i < length tasks"
    and h: "modelIds \<noteq> []
           \<and> filter (\<lambda>x. x \<in> set modelIds) (selectedModels (schedule (tasks ! i))) \<noteq> []"
  then show "selectedModels (schedule (repairSelections tasks accountEmails modelIds ! i))
      = filter (\<lambda>x. x \<in> set modelIds) (selectedModels (schedule (tasks ! i)))"
    unfolding repairSelections_nth(2) [OF i] by (intro repair_selection_kept_any) blast+
next
  fix i x assume i: "i < length tasks"
    and "x \<in> set (selectedAccounts (schedule (tasks ! i))) \<inter> set accountEmails"
  then show "x \<in> set (selectedAccounts (schedule (repairSelections tasks accountEmails modelIds ! i)))"
    unfolding repairSelections_nth(1) [OF i] by (intro repair_selection_keeps_valid) blast+
next
  fix i x assume i: "i < length tasks"
    and "x \<in> set (selectedModels (schedule (tasks ! i))) \<inter> set modelIds"
  then show "x \<in> set (selectedModels (schedule (repairSelections tasks accountEmails modelIds ! i)))"
    unfolding repairSelections_nth(2) [OF i] by (intro repair_selection_keeps_valid) blast+
qed

text \<open>
  The claim as stated makes repair a no-op whenever the selections are subsets of the
  available items. The task made for an empty storage selects no account, which is a
  subset of every list; repair gives it the first available account.
\<close>

theorem repairSelections_fills_empty_selection:
  "set (selectedAccounts (schedule default_task)) \<subseteq> set [''a1@example.com'']
   \<and> set (selectedModels (schedule default_task)) \<subseteq> set [''codex-hourly'']
   \<and> repairSelections [default_task] [''a1@example.com''] [''codex-hourly''] \<noteq> [default_task]
   \<and> selectedAccounts (schedule (hd (repairSelections [default_task] [''a1@example.com''] [''codex-hourly''])))
       = [''a1@example.com'']"
  by (simp add: default_task_def normalizeSchedule_def with_DEFAULT_SCHEDULE_def repairSelections_def
      repair_task_def repair_selection_def Let_def nonempty_or_def string_or_def opt_or_def)

lemma example_selections:
  "selectedAccounts (schedule both_flags_task) = [''a1@example.com'']"
  "selectedModels (schedule both_flags_task) = [''codex-hourly'']"
  "selectedAccounts (schedule default_task) = []"
  "selectedModels (schedule default_task) = [''codex-hourly'']"
  by (simp_all add: both_flags_task_def daily_example_def default_task_def normalizeSchedule_def)

text \<open>The statement of C7 for a task with valid selections and for the default task.\<close>

theorem repairSelections_valid_selections_witness:
  "repairSelections [both_flags_task] [''a1@example.com''] [''codex-hourly''] = [both_flags_task]
   \<and> length (repairSelections [default_task] [''a1@example.com''] [''codex-hourly'']) = 1
   \<and> selectedAccounts (schedule (repairSelections [default_task] [''a1@example.com''] [''codex-hourly''] ! 0))
       = [''a1@example.com'']
   \<and> selectedModels (schedule (repairSelections [default_task] [''a1@example.com''] [''codex-hourly''] ! 0))
       = [''codex-hourly'']"
  using repairSelections_valid_selections [of "[both_flags_task]" "[''a1@example.com'']" "[''codex-hourly'']"]
    repairSelections_valid_selections [of "[default_task]" "[''a1@example.com'']" "[''codex-hourly'']"]
  by (simp add: example_selections)

end
